theory Spec2Isabelle
  imports Main
begin

section \<open>Peers and peer lists of the tchannel client (peer.go)\<close>

text \<open>
  The Go code works on heap objects through pointers: a \<^verbatim>\<open>*PeerList\<close>, a \<^verbatim>\<open>*Peer\<close> and a
  \<^verbatim>\<open>*Connection\<close> are references, and two lists may hold the same \<^verbatim>\<open>*Peer\<close>. The model keeps
  an explicit store: a reference is the index of the object in the store, \<^verbatim>\<open>&PeerList{...}\<close>
  and \<^verbatim>\<open>&Peer{...}\<close> allocate at the end of the store, and a reference that is outside the
  store stands for a nil pointer, whose dereference panics.
\<close>

type_synonym list_ref = nat
type_synonym peer_ref = nat
type_synonym conn_ref = nat

subsection \<open>Types declared outside the file\<close>

text \<open>
  \<^verbatim>\<open>context.Context\<close>, \<^verbatim>\<open>ConnectionOptions\<close>, \<^verbatim>\<open>CallOptions\<close>, \<^verbatim>\<open>OutboundCall\<close> and
  \<^verbatim>\<open>peerSelector\<close> are used by the file but declared elsewhere; the file never looks
  inside them, so each is an opaque handle.
\<close>

datatype Context = Context nat
datatype ConnectionOptions = ConnectionOptionsOf nat
datatype CallOptions = CallOptions nat
datatype OutboundCall = OutboundCall nat
datatype peerSelector = PeerSelector nat

text \<open>
  Modelled from the spec: the lifecycle states of a connection are declared outside the
  file, which names only \<^verbatim>\<open>connectionActive\<close> and \<^verbatim>\<open>connectionStartClose\<close>. The spec lists
  the values active, start-close, closed and leaves further ones open; they are
  \<open>connectionOther\<close>.
\<close>

datatype connectionState =
    connectionActive
  | connectionStartClose
  | connectionClosed
  | connectionOther nat

datatype error =
    ErrInvalidConnectionState
  | ErrNoPeers
  | ErrExternal string

text \<open>The store of connections: the lifecycle state of every connection.\<close>

type_synonym conn_store = "conn_ref \<Rightarrow> connectionState"

text \<open>
  The interface \<^verbatim>\<open>Connectable\<close>. \<^verbatim>\<open>Connect\<close> is implemented outside the file: it yields an
  error or a connection, and may change the connections that exist.
\<close>

record Connectable =
  Connect :: "Context \<Rightarrow> string \<Rightarrow> ConnectionOptions \<Rightarrow> conn_store
                \<Rightarrow> (error + conn_ref) \<times> conn_store"
  ConnectionOptions :: ConnectionOptions

record PeerList =
  channel :: Connectable
  parent :: "list_ref option"
  peersByHostPort :: "string \<rightharpoonup> peer_ref"
  peers :: "peer_ref list"
  peerSelector :: peerSelector

record Peer =
  peerChannel :: Connectable
  hostPort :: string
  inboundConnections :: "conn_ref list"
  outboundConnections :: "conn_ref list"

text \<open>
  The mutexes are not fields of the model: every method releases what it acquires before
  it returns, and the model records the lock operations a call performs, in order, as
  events, together with the calls it makes on objects implemented outside the file.
\<close>

datatype mutex = ListMut list_ref | PeerMut peer_ref

datatype event =
    RLock mutex
  | RUnlock mutex
  | Lock mutex
  | Unlock mutex
  | ChannelConnect string
  | ConnectionClose conn_ref
  | ConnectionBeginCall conn_ref

text \<open>
  The world: the objects on the heap and the package variable \<^verbatim>\<open>peerRng\<close>.

  Modelled from the spec: \<^verbatim>\<open>NewRand\<close> is declared outside the file. The random source is
  the infinite sequence of its future draws.
\<close>

record world =
  listObjs :: "PeerList list"
  peerObjs :: "Peer list"
  connStates :: conn_store
  peerRng :: "nat \<Rightarrow> nat"

text \<open>
  The methods of \<^verbatim>\<open>Connection\<close> and \<^verbatim>\<open>peerSelector\<close> and the variable
  \<^verbatim>\<open>defaultCallOptions\<close> are declared outside the file; the model takes them as
  parameters.
\<close>

record externals =
  newPeerSelector :: peerSelector
  choosePeer :: "peerSelector \<Rightarrow> peer_ref list \<Rightarrow> peer_ref \<times> peerSelector"
  connClose :: "conn_ref \<Rightarrow> conn_store \<Rightarrow> conn_store"
  connBeginCall :: "conn_ref \<Rightarrow> Context \<Rightarrow> string \<Rightarrow> CallOptions \<Rightarrow> string \<Rightarrow> conn_store
                      \<Rightarrow> (error + OutboundCall) \<times> conn_store"
  defaultCallOptions :: CallOptions

text \<open>
  A method call yields \<open>None\<close> when it does not return (it panics on a nil pointer, or
  blocks forever), and otherwise its results, the world after it and the events it
  performed.
\<close>

type_synonym 'a outcome = "('a \<times> world \<times> event list) option"

subsection \<open>PeerList\<close>

definition newPeerList :: "externals \<Rightarrow> Connectable \<Rightarrow> world \<Rightarrow> list_ref \<times> world" where
  "newPeerList X ch s =
     (length (listObjs s),
      s\<lparr>listObjs := listObjs s @
           [\<lparr>channel = ch, parent = None, peersByHostPort = Map.empty, peers = [],
             peerSelector = newPeerSelector X\<rparr>]\<rparr>)"

definition isRoot :: "PeerList \<Rightarrow> bool" where
  "isRoot l = (parent l = None)"

definition setParent :: "list_ref \<Rightarrow> list_ref option \<Rightarrow> world \<Rightarrow> world" where
  "setParent l q s = s\<lparr>listObjs := (listObjs s)[l := (listObjs s ! l)\<lparr>parent := q\<rparr>]\<rparr>"

definition newSibling :: "externals \<Rightarrow> list_ref \<Rightarrow> world \<Rightarrow> (list_ref \<times> world) option" where
  "newSibling X l s =
     (if l < length (listObjs s) then
        (case newPeerList X (channel (listObjs s ! l)) s of
           (sib, s1) \<Rightarrow> Some (sib, setParent sib (parent (listObjs s ! l)) s1))
      else None)"

definition newChild :: "externals \<Rightarrow> list_ref \<Rightarrow> world \<Rightarrow> (list_ref \<times> world) option" where
  "newChild X l s =
     (if l < length (listObjs s) then
        (case newPeerList X (channel (listObjs s ! l)) s of
           (child, s1) \<Rightarrow> Some (child, setParent child (Some l) s1))
      else None)"

definition newPeer :: "Connectable \<Rightarrow> string \<Rightarrow> world \<Rightarrow> peer_ref \<times> world" where
  "newPeer ch hp s =
     (length (peerObjs s),
      s\<lparr>peerObjs := peerObjs s @
           [\<lparr>peerChannel = ch, hostPort = hp, inboundConnections = [],
             outboundConnections = []\<rparr>]\<rparr>)"

text \<open>The two assignments that end \<^verbatim>\<open>Add\<close>: the map entry and the append.\<close>

definition addEntry :: "list_ref \<Rightarrow> string \<Rightarrow> peer_ref \<Rightarrow> world \<Rightarrow> world" where
  "addEntry l hp p s =
     s\<lparr>listObjs := (listObjs s)[l := (listObjs s ! l)
          \<lparr>peersByHostPort := (peersByHostPort (listObjs s ! l))(hp \<mapsto> p),
           peers := peers (listObjs s ! l) @ [p]\<rparr>]\<rparr>"

text \<open>
  \<^verbatim>\<open>Add\<close>. The read-locked lookup, the second lookup under the write lock, and then either
  a new peer (the root) or the parent's answer. The deferred \<^verbatim>\<open>Unlock\<close> runs when the
  method returns, so after the call on the parent. On a parent chain that comes back to
  \<open>l\<close> the Go code blocks on its own lock and the model does not return either.
\<close>

definition addRoot :: "list_ref \<Rightarrow> string \<Rightarrow> world \<Rightarrow> peer_ref \<times> world \<times> event list" where
  "addRoot l hp s =
     (case newPeer (channel (listObjs s ! l)) hp s of
        (p, s1) \<Rightarrow>
          (p, addEntry l hp p s1,
           [RLock (ListMut l), RUnlock (ListMut l), Lock (ListMut l), Unlock (ListMut l)]))"

definition addFromParent :: "list_ref \<Rightarrow> string \<Rightarrow> peer_ref \<times> world \<times> event list
    \<Rightarrow> peer_ref \<times> world \<times> event list" where
  "addFromParent l hp r =
     (case r of (p, s1, evs) \<Rightarrow>
        (p, addEntry l hp p s1,
         [RLock (ListMut l), RUnlock (ListMut l), Lock (ListMut l)] @ evs @ [Unlock (ListMut l)]))"

partial_function (option) PeerList_Add :: "list_ref \<Rightarrow> string \<Rightarrow> world \<Rightarrow> peer_ref outcome" where
  "PeerList_Add l hp s =
     (if l < length (listObjs s) then
        (if hp \<in> dom (peersByHostPort (listObjs s ! l)) then
           Some (the (peersByHostPort (listObjs s ! l) hp), s,
                 [RLock (ListMut l), RUnlock (ListMut l)])
         else if hp \<in> dom (peersByHostPort (listObjs s ! l)) then
           Some (the (peersByHostPort (listObjs s ! l) hp), s,
                 [RLock (ListMut l), RUnlock (ListMut l), Lock (ListMut l), Unlock (ListMut l)])
         else if isRoot (listObjs s ! l) then Some (addRoot l hp s)
         else
           Option.bind (PeerList_Add (the (parent (listObjs s ! l))) hp s)
             (\<lambda>r. Some (addFromParent l hp r)))
      else None)"

text \<open>\<^verbatim>\<open>Get\<close>: the pair (nil, ErrNoPeers) is \<open>Inl ErrNoPeers\<close>, the pair (peer, nil) is \<open>Inr peer\<close>.\<close>

definition PeerList_Get :: "externals \<Rightarrow> list_ref \<Rightarrow> world \<Rightarrow> (error + peer_ref) outcome" where
  "PeerList_Get X l s =
     (if l < length (listObjs s) then
        (if length (peers (listObjs s ! l)) = 0 then
           Some (Inl ErrNoPeers, s, [RLock (ListMut l), RUnlock (ListMut l)])
         else
           (case choosePeer X (peerSelector (listObjs s ! l)) (peers (listObjs s ! l)) of
              (peer, sel) \<Rightarrow>
                Some (Inr peer,
                      s\<lparr>listObjs := (listObjs s)[l := (listObjs s ! l)\<lparr>peerSelector := sel\<rparr>]\<rparr>,
                      [RLock (ListMut l), RUnlock (ListMut l)])))
      else None)"

definition PeerList_GetOrAdd :: "list_ref \<Rightarrow> string \<Rightarrow> world \<Rightarrow> peer_ref outcome" where
  "PeerList_GetOrAdd l hp s =
     (if l < length (listObjs s) then
        (if hp \<in> dom (peersByHostPort (listObjs s ! l)) then
           Some (the (peersByHostPort (listObjs s ! l) hp), s,
                 [RLock (ListMut l), RUnlock (ListMut l)])
         else
           (case PeerList_Add l hp s of
              None \<Rightarrow> None
            | Some (p, s1, evs) \<Rightarrow>
                Some (p, s1, [RLock (ListMut l), RUnlock (ListMut l)] @ evs)))
      else None)"

definition PeerList_Copy :: "list_ref \<Rightarrow> world \<Rightarrow> (string \<rightharpoonup> peer_ref) outcome" where
  "PeerList_Copy l s =
     (if l < length (listObjs s) then
        Some (peersByHostPort (listObjs s ! l), s, [RLock (ListMut l), RUnlock (ListMut l)])
      else None)"

subsection \<open>Peer\<close>

definition HostPort :: "peer_ref \<Rightarrow> world \<Rightarrow> string outcome" where
  "HostPort p s =
     (if p < length (peerObjs s) then Some (hostPort (peerObjs s ! p), s, []) else None)"

definition readState :: "conn_store \<Rightarrow> conn_ref \<Rightarrow> connectionState" where
  "readState cs c = cs c"

text \<open>
  Modelled from the spec: \<^verbatim>\<open>IsActive\<close> is a method of \<^verbatim>\<open>Connection\<close>, declared outside the
  file; by the spec it holds of the connections whose lifecycle state reports active.
\<close>

definition IsActive :: "conn_store \<Rightarrow> conn_ref \<Rightarrow> bool" where
  "IsActive cs c = (readState cs c = connectionActive)"

definition runWithConnections :: "Peer \<Rightarrow> (conn_ref \<Rightarrow> 'a \<Rightarrow> 'a) \<Rightarrow> 'a \<Rightarrow> 'a" where
  "runWithConnections P f a = fold f (outboundConnections P) (fold f (inboundConnections P) a)"

definition getActive :: "peer_ref \<Rightarrow> world \<Rightarrow> (conn_ref list) outcome" where
  "getActive p s =
     (if p < length (peerObjs s) then
        Some (runWithConnections (peerObjs s ! p)
                (\<lambda>c active. if IsActive (connStates s) c then active @ [c] else active) [],
              s, [RLock (PeerMut p), RUnlock (PeerMut p)])
      else None)"

text \<open>
  Modelled from the spec: \<^verbatim>\<open>Intn\<close> belongs to the random source, declared outside the
  file. \<^verbatim>\<open>Intn(n)\<close> takes the next draw into the range from 0 up to \<open>n\<close>, and panics
  when \<open>n\<close> is not positive.
\<close>

definition Intn :: "(nat \<Rightarrow> nat) \<Rightarrow> nat \<Rightarrow> (nat \<times> (nat \<Rightarrow> nat)) option" where
  "Intn r n = (if n = 0 then None else Some (r 0 mod n, \<lambda>i. r (Suc i)))"

definition randConn :: "conn_ref list \<Rightarrow> world \<Rightarrow> (conn_ref \<times> world) option" where
  "randConn cs s =
     (case Intn (peerRng s) (length cs) of
        None \<Rightarrow> None
      | Some (i, r) \<Rightarrow> if i < length cs then Some (cs ! i, s\<lparr>peerRng := r\<rparr>) else None)"

text \<open>
  A nil error is \<open>None\<close>. The switch on the state comes first, before the peer is
  touched.
\<close>

definition AddInboundConnection :: "peer_ref \<Rightarrow> conn_ref \<Rightarrow> world \<Rightarrow> (error option) outcome" where
  "AddInboundConnection p c s =
     (if readState (connStates s) c = connectionActive
         \<or> readState (connStates s) c = connectionStartClose then
        (if p < length (peerObjs s) then
           Some (None,
                 s\<lparr>peerObjs := (peerObjs s)[p := (peerObjs s ! p)
                      \<lparr>inboundConnections := inboundConnections (peerObjs s ! p) @ [c]\<rparr>]\<rparr>,
                 [Lock (PeerMut p), Unlock (PeerMut p)])
         else None)
      else Some (Some ErrInvalidConnectionState, s, []))"

definition AddOutboundConnection :: "peer_ref \<Rightarrow> conn_ref \<Rightarrow> world \<Rightarrow> (error option) outcome" where
  "AddOutboundConnection p c s =
     (if readState (connStates s) c = connectionActive
         \<or> readState (connStates s) c = connectionStartClose then
        (if p < length (peerObjs s) then
           Some (None,
                 s\<lparr>peerObjs := (peerObjs s)[p := (peerObjs s ! p)
                      \<lparr>outboundConnections := outboundConnections (peerObjs s ! p) @ [c]\<rparr>]\<rparr>,
                 [Lock (PeerMut p), Unlock (PeerMut p)])
         else None)
      else Some (Some ErrInvalidConnectionState, s, []))"

definition Peer_Connect :: "peer_ref \<Rightarrow> Context \<Rightarrow> world \<Rightarrow> (error + conn_ref) outcome" where
  "Peer_Connect p ctx s =
     (if p < length (peerObjs s) then
        (case Connect (peerChannel (peerObjs s ! p)) ctx (hostPort (peerObjs s ! p))
                (ConnectionOptions (peerChannel (peerObjs s ! p))) (connStates s) of
           (Inl err, cs) \<Rightarrow>
             Some (Inl err, s\<lparr>connStates := cs\<rparr>, [ChannelConnect (hostPort (peerObjs s ! p))])
         | (Inr c, cs) \<Rightarrow>
             (case AddOutboundConnection p c (s\<lparr>connStates := cs\<rparr>) of
                None \<Rightarrow> None
              | Some (Some err, s1, evs) \<Rightarrow>
                  Some (Inl err, s1, ChannelConnect (hostPort (peerObjs s ! p)) # evs)
              | Some (None, s1, evs) \<Rightarrow>
                  Some (Inr c, s1, ChannelConnect (hostPort (peerObjs s ! p)) # evs)))
      else None)"

definition GetConnection :: "peer_ref \<Rightarrow> Context \<Rightarrow> world \<Rightarrow> (error + conn_ref) outcome" where
  "GetConnection p ctx s =
     (case getActive p s of
        None \<Rightarrow> None
      | Some (activeConns, s1, evs) \<Rightarrow>
          (if length activeConns > 0 then
             (case randConn activeConns s1 of
                None \<Rightarrow> None
              | Some (c, s2) \<Rightarrow> Some (Inr c, s2, evs))
           else
             (case Peer_Connect p ctx s1 of
                None \<Rightarrow> None
              | Some (Inl err, s2, evs2) \<Rightarrow> Some (Inl err, s2, evs @ evs2)
              | Some (Inr c, s2, evs2) \<Rightarrow> Some (Inr c, s2, evs @ evs2))))"

text \<open>A nil \<^verbatim>\<open>*CallOptions\<close> is \<open>None\<close>.\<close>

definition BeginCall :: "externals \<Rightarrow> peer_ref \<Rightarrow> Context \<Rightarrow> string \<Rightarrow> string \<Rightarrow> CallOptions option
    \<Rightarrow> world \<Rightarrow> (error + OutboundCall) outcome" where
  "BeginCall X p ctx serviceName operationName callOptions s =
     (case GetConnection p ctx s of
        None \<Rightarrow> None
      | Some (Inl err, s1, evs) \<Rightarrow> Some (Inl err, s1, evs)
      | Some (Inr conn, s1, evs) \<Rightarrow>
          (case connBeginCall X conn ctx serviceName
                  (case callOptions of None \<Rightarrow> defaultCallOptions X | Some co \<Rightarrow> co)
                  operationName (connStates s1) of
             (Inl err, cs) \<Rightarrow>
               Some (Inl err, s1\<lparr>connStates := cs\<rparr>, evs @ [ConnectionBeginCall conn])
           | (Inr call, cs) \<Rightarrow>
               Some (Inr call, s1\<lparr>connStates := cs\<rparr>, evs @ [ConnectionBeginCall conn])))"

definition closeConnection :: "externals \<Rightarrow> conn_ref \<Rightarrow> conn_store \<times> event list
    \<Rightarrow> conn_store \<times> event list" where
  "closeConnection X c a = (connClose X c (fst a), snd a @ [ConnectionClose c])"

definition Peer_Close :: "externals \<Rightarrow> peer_ref \<Rightarrow> world \<Rightarrow> unit outcome" where
  "Peer_Close X p s =
     (if p < length (peerObjs s) then
        (case runWithConnections (peerObjs s ! p) (closeConnection X) (connStates s, []) of
           (cs, evs) \<Rightarrow>
             Some ((), s\<lparr>connStates := cs\<rparr>, [RLock (PeerMut p)] @ evs @ [RUnlock (PeerMut p)]))
      else None)"

text \<open>The loop of \<^verbatim>\<open>PeerList.Close\<close> over the peers of the list.\<close>

fun closePeers :: "externals \<Rightarrow> peer_ref list \<Rightarrow> world \<Rightarrow> (world \<times> event list) option" where
  "closePeers X [] s = Some (s, [])"
| "closePeers X (p # ps) s =
     (case Peer_Close X p s of
        None \<Rightarrow> None
      | Some (u, s1, evs1) \<Rightarrow>
          (case closePeers X ps s1 of
             None \<Rightarrow> None
           | Some (s2, evs2) \<Rightarrow> Some (s2, evs1 @ evs2)))"

definition PeerList_Close :: "externals \<Rightarrow> list_ref \<Rightarrow> world \<Rightarrow> unit outcome" where
  "PeerList_Close X l s =
     (if l < length (listObjs s) then
        (case closePeers X (peers (listObjs s ! l)) s of
           None \<Rightarrow> None
         | Some (s1, evs) \<Rightarrow>
             Some ((), s1, [RLock (ListMut l)] @ evs @ [RUnlock (ListMut l)]))
      else None)"

subsection \<open>Sequences of calls\<close>

text \<open>
  A client of the package calls the functions above one after the other, and the
  connections change state on their own in between (\<open>EnvConnections\<close>). \<open>run\<close> gives the
  world after a sequence of calls that all return.
\<close>

datatype call =
    CallNewPeerList Connectable
  | CallNewSibling list_ref
  | CallNewChild list_ref
  | CallAdd list_ref string
  | CallGet list_ref
  | CallGetOrAdd list_ref string
  | CallCopy list_ref
  | CallClose list_ref
  | CallHostPort peer_ref
  | CallGetConnection peer_ref Context
  | CallAddInboundConnection peer_ref conn_ref
  | CallAddOutboundConnection peer_ref conn_ref
  | CallConnect peer_ref Context
  | CallBeginCall peer_ref Context string string "CallOptions option"
  | CallPeerClose peer_ref
  | EnvConnections conn_store

definition after :: "'a outcome \<Rightarrow> world option" where
  "after r = map_option (\<lambda>x. fst (snd x)) r"

fun step :: "externals \<Rightarrow> call \<Rightarrow> world \<Rightarrow> world option" where
  "step X (CallNewPeerList ch) s = Some (snd (newPeerList X ch s))"
| "step X (CallNewSibling l) s = map_option snd (newSibling X l s)"
| "step X (CallNewChild l) s = map_option snd (newChild X l s)"
| "step X (CallAdd l hp) s = after (PeerList_Add l hp s)"
| "step X (CallGet l) s = after (PeerList_Get X l s)"
| "step X (CallGetOrAdd l hp) s = after (PeerList_GetOrAdd l hp s)"
| "step X (CallCopy l) s = after (PeerList_Copy l s)"
| "step X (CallClose l) s = after (PeerList_Close X l s)"
| "step X (CallHostPort p) s = after (HostPort p s)"
| "step X (CallGetConnection p ctx) s = after (GetConnection p ctx s)"
| "step X (CallAddInboundConnection p c) s = after (AddInboundConnection p c s)"
| "step X (CallAddOutboundConnection p c) s = after (AddOutboundConnection p c s)"
| "step X (CallConnect p ctx) s = after (Peer_Connect p ctx s)"
| "step X (CallBeginCall p ctx sn opn co) s = after (BeginCall X p ctx sn opn co s)"
| "step X (CallPeerClose p) s = after (Peer_Close X p s)"
| "step X (EnvConnections cs) s = Some (s\<lparr>connStates := cs\<rparr>)"

fun run :: "externals \<Rightarrow> call list \<Rightarrow> world \<Rightarrow> world option" where
  "run X [] s = Some s"
| "run X (c # cs) s = (case step X c s of None \<Rightarrow> None | Some s1 \<Rightarrow> run X cs s1)"

subsection \<open>Invariants of the store\<close>

text \<open>A parent was allocated before its children and siblings.\<close>

definition parentsBelow :: "world \<Rightarrow> bool" where
  "parentsBelow s =
     (\<forall>l < length (listObjs s). \<forall>q. parent (listObjs s ! l) = Some q \<longrightarrow> q < l)"

text \<open>An indexed peer exists, under the host:port it was created with.\<close>

definition keyedByHostPort :: "world \<Rightarrow> bool" where
  "keyedByHostPort s =
     (\<forall>l < length (listObjs s). \<forall>hp p. peersByHostPort (listObjs s ! l) hp = Some p \<longrightarrow>
        p < length (peerObjs s) \<and> hostPort (peerObjs s ! p) = hp)"

text \<open>The sequence of a list holds the values of its map, each once.\<close>

definition sequenceIsIndex :: "world \<Rightarrow> bool" where
  "sequenceIsIndex s =
     (\<forall>l < length (listObjs s).
        set (peers (listObjs s ! l)) = ran (peersByHostPort (listObjs s ! l))
        \<and> distinct (peers (listObjs s ! l)))"

text \<open>The index of a list with a parent is part of the parent's index.\<close>

definition subsetOfParent :: "world \<Rightarrow> bool" where
  "subsetOfParent s =
     (\<forall>l < length (listObjs s). \<forall>q. parent (listObjs s ! l) = Some q \<longrightarrow>
        peersByHostPort (listObjs s ! l) \<subseteq>\<^sub>m peersByHostPort (listObjs s ! q))"

definition storeInv :: "world \<Rightarrow> bool" where
  "storeInv s = (parentsBelow s \<and> keyedByHostPort s \<and> sequenceIsIndex s \<and> subsetOfParent s)"

subsection \<open>Reading the events\<close>




fun isChannelConnect :: "event \<Rightarrow> bool" where
  "isChannelConnect (ChannelConnect hp) = True"
| "isChannelConnect e = False"

text \<open>The events of \<^verbatim>\<open>Peer.Close\<close> by the spec: every inbound, then every outbound connection.\<close>

definition closeEvents :: "world \<Rightarrow> peer_ref \<Rightarrow> event list" where
  "closeEvents s p =
     [RLock (PeerMut p)]
     @ map ConnectionClose (inboundConnections (peerObjs s ! p) @ outboundConnections (peerObjs s ! p))
     @ [RUnlock (PeerMut p)]"

subsection \<open>A channel and a world to run the functions on\<close>

definition exChannel :: Connectable where
  "exChannel =
     \<lparr>Connect = (\<lambda>ctx hp opts cs.
         if hp = ''10.0.0.1:4040'' then (Inr 7, cs(7 := connectionActive))
         else (Inl (ErrExternal ''refused''), cs)),
      ConnectionOptions = ConnectionOptionsOf 0\<rparr>"

definition exX :: externals where
  "exX =
     \<lparr>newPeerSelector = PeerSelector 0,
      choosePeer = (\<lambda>sel ps. (hd ps, sel)),
      connClose = (\<lambda>c cs. cs(c := connectionClosed)),
      connBeginCall = (\<lambda>c ctx sn co opn cs. (Inr (OutboundCall c), cs)),
      defaultCallOptions = CallOptions 0\<rparr>"

definition exWorld :: world where
  "exWorld =
     \<lparr>listObjs = [], peerObjs = [], connStates = (\<lambda>c. connectionClosed), peerRng = (\<lambda>i. i)\<rparr>"

definition exWorld1 :: world where
  "exWorld1 =
     \<lparr>listObjs =
        [\<lparr>channel = exChannel, parent = None, peersByHostPort = [''10.0.0.1:4040'' \<mapsto> 0],
          peers = [0], peerSelector = PeerSelector 0\<rparr>],
      peerObjs =
        [\<lparr>peerChannel = exChannel, hostPort = ''10.0.0.1:4040'', inboundConnections = [3],
          outboundConnections = [4]\<rparr>],
      connStates = ((\<lambda>c. connectionClosed)(3 := connectionActive, 4 := connectionStartClose)),
      peerRng = (\<lambda>i. i)\<rparr>"

definition exWorld2 :: world where
  "exWorld2 =
     \<lparr>listObjs = [],
      peerObjs =
        [\<lparr>peerChannel = exChannel, hostPort = ''10.0.0.1:4040'', inboundConnections = [],
          outboundConnections = [4]\<rparr>,
         \<lparr>peerChannel = exChannel, hostPort = ''10.0.0.2:4040'', inboundConnections = [],
          outboundConnections = []\<rparr>],
      connStates = ((\<lambda>c. connectionClosed)(4 := connectionStartClose)),
      peerRng = (\<lambda>i. i)\<rparr>"

definition exAdded :: world where
  "exAdded =
     \<lparr>listObjs =
        [\<lparr>channel = exChannel, parent = None,
          peersByHostPort = [''10.0.0.1:4040'' \<mapsto> 0, ''10.0.0.2:4040'' \<mapsto> 1],
          peers = [0, 1], peerSelector = PeerSelector 0\<rparr>],
      peerObjs =
        [\<lparr>peerChannel = exChannel, hostPort = ''10.0.0.1:4040'', inboundConnections = [3],
          outboundConnections = [4]\<rparr>,
         \<lparr>peerChannel = exChannel, hostPort = ''10.0.0.2:4040'', inboundConnections = [],
          outboundConnections = []\<rparr>],
      connStates = ((\<lambda>c. connectionClosed)(3 := connectionActive, 4 := connectionStartClose)),
      peerRng = (\<lambda>i. i)\<rparr>"

definition exRoot :: PeerList where
  "exRoot = \<lparr>channel = exChannel, parent = None, peersByHostPort = Map.empty, peers = [],
             peerSelector = PeerSelector 0\<rparr>"

definition exSiblings :: world where
  "exSiblings = exWorld\<lparr>listObjs := [exRoot, exRoot]\<rparr>"

definition exParentChild :: world where
  "exParentChild = exWorld\<lparr>listObjs := [exRoot, exRoot\<lparr>parent := Some 0\<rparr>]\<rparr>"


definition exChildAdded :: world where
  "exChildAdded =
     exWorld\<lparr>listObjs :=
         [exRoot\<lparr>peersByHostPort := [''10.0.0.1:4040'' \<mapsto> 0], peers := [0]\<rparr>,
          exRoot\<lparr>parent := Some 0, peersByHostPort := [''10.0.0.1:4040'' \<mapsto> 0], peers := [0]\<rparr>],
       peerObjs :=
         [\<lparr>peerChannel = exChannel, hostPort = ''10.0.0.1:4040'', inboundConnections = [],
           outboundConnections = []\<rparr>]\<rparr>"

subsection \<open>Relations between two stores\<close>

text \<open>
  The second store has the lists of the first with their parents, maps and sequences, and
  the peers of the first with their host:ports.
\<close>

definition sameIndex :: "world \<Rightarrow> world \<Rightarrow> bool" where
  "sameIndex s s' =
     (map parent (listObjs s') = map parent (listObjs s)
      \<and> map peersByHostPort (listObjs s') = map peersByHostPort (listObjs s)
      \<and> map peers (listObjs s') = map peers (listObjs s)
      \<and> map hostPort (peerObjs s') = map hostPort (peerObjs s))"

text \<open>The second store has the lists of the first, with their parents, and maybe more.\<close>

definition extends :: "world \<Rightarrow> world \<Rightarrow> bool" where
  "extends s s' =
     (length (listObjs s) \<le> length (listObjs s')
      \<and> (\<forall>l < length (listObjs s). parent (listObjs s' ! l) = parent (listObjs s ! l)))"

section \<open>Properties\<close>

subsection \<open>Registering a connection\<close>

text \<open>
  C4. On a peer \<open>p\<close> and a connection \<open>c\<close>, \<^verbatim>\<open>AddInboundConnection\<close> and
  \<^verbatim>\<open>AddOutboundConnection\<close> return: the error is ErrInvalidConnectionState exactly when
  the state of \<open>c\<close> is neither active nor start-close, and no other error occurs; on the
  error the world is the one before, so both lists of the peer are unchanged; on success
  the only change is \<open>c\<close> appended to the inbound list, respectively the outbound list.
\<close>

theorem AddConnection_invalid_state:
  assumes "p < length (peerObjs s)"
  shows "(\<exists>r s' evs. AddInboundConnection p c s = Some (r, s', evs)
           \<and> (r = Some ErrInvalidConnectionState) =
               (readState (connStates s) c \<noteq> connectionActive
                \<and> readState (connStates s) c \<noteq> connectionStartClose)
           \<and> (r = None \<or> r = Some ErrInvalidConnectionState)
           \<and> (r = Some ErrInvalidConnectionState \<longrightarrow> s' = s)
           \<and> (r = None \<longrightarrow>
                 s' = s\<lparr>peerObjs := (peerObjs s)[p := (peerObjs s ! p)
                        \<lparr>inboundConnections := inboundConnections (peerObjs s ! p) @ [c]\<rparr>]\<rparr>))
       \<and> (\<exists>r s' evs. AddOutboundConnection p c s = Some (r, s', evs)
           \<and> (r = Some ErrInvalidConnectionState) =
               (readState (connStates s) c \<noteq> connectionActive
                \<and> readState (connStates s) c \<noteq> connectionStartClose)
           \<and> (r = None \<or> r = Some ErrInvalidConnectionState)
           \<and> (r = Some ErrInvalidConnectionState \<longrightarrow> s' = s)
           \<and> (r = None \<longrightarrow>
                 s' = s\<lparr>peerObjs := (peerObjs s)[p := (peerObjs s ! p)
                        \<lparr>outboundConnections := outboundConnections (peerObjs s ! p) @ [c]\<rparr>]\<rparr>))"
  using assms by (simp add: AddInboundConnection_def AddOutboundConnection_def)

theorem AddConnection_invalid_state_witness:
  "0 < length (peerObjs exWorld1)
   \<and> AddInboundConnection 0 5 exWorld1 = Some (Some ErrInvalidConnectionState, exWorld1, [])
   \<and> (\<exists>s'. AddOutboundConnection 0 3 exWorld1 = Some (None, s', [Lock (PeerMut 0), Unlock (PeerMut 0)])
         \<and> outboundConnections (peerObjs s' ! 0) = [4, 3]
         \<and> inboundConnections (peerObjs s' ! 0) = [3])"
  using AddConnection_invalid_state [of 0 exWorld1 5]
  by (simp add: exWorld1_def AddInboundConnection_def AddOutboundConnection_def readState_def)

subsection \<open>Choosing a peer\<close>

text \<open>
  C3. \<^verbatim>\<open>Get\<close> on a list returns. When the sequence of peers is empty it returns
  ErrNoPeers and leaves the world as it was, having only taken and released the read
  lock; when the sequence is not empty it returns, with no error, the peer that
  \<^verbatim>\<open>choosePeer\<close> picks from the sequence, and changes neither a peer, a connection nor
  an index. The error is ErrNoPeers exactly when the sequence is empty.
\<close>

theorem Get_no_peers:
  assumes "l < length (listObjs s)"
  shows "(peers (listObjs s ! l) = [] \<longrightarrow>
            PeerList_Get X l s = Some (Inl ErrNoPeers, s, [RLock (ListMut l), RUnlock (ListMut l)]))
       \<and> (peers (listObjs s ! l) \<noteq> [] \<longrightarrow>
            (\<exists>s'. PeerList_Get X l s =
               Some (Inr (fst (choosePeer X (peerSelector (listObjs s ! l)) (peers (listObjs s ! l)))),
                     s', [RLock (ListMut l), RUnlock (ListMut l)])
              \<and> peerObjs s' = peerObjs s \<and> connStates s' = connStates s
              \<and> map peers (listObjs s') = map peers (listObjs s)
              \<and> map peersByHostPort (listObjs s') = map peersByHostPort (listObjs s)))
       \<and> (\<exists>r s' evs. PeerList_Get X l s = Some (r, s', evs)
             \<and> (r = Inl ErrNoPeers) = (peers (listObjs s ! l) = []))"
  using assms
  by (auto simp: PeerList_Get_def map_update list_update_same_conv split: prod.splits)

theorem Get_no_peers_witness:
  "0 < length (listObjs exWorld1)
   \<and> PeerList_Get exX 0 exWorld1 = Some (Inr 0, exWorld1, [RLock (ListMut 0), RUnlock (ListMut 0)])
   \<and> PeerList_Get exX 0 (snd (newPeerList exX exChannel exWorld))
       = Some (Inl ErrNoPeers, snd (newPeerList exX exChannel exWorld),
               [RLock (ListMut 0), RUnlock (ListMut 0)])"
  using Get_no_peers [of 0 exWorld1 exX] Get_no_peers [of 0 "snd (newPeerList exX exChannel exWorld)" exX]
  by (simp add: exWorld1_def exWorld_def exX_def newPeerList_def PeerList_Get_def)

subsection \<open>Getting a connection\<close>

lemma fold_collect:
  "fold (\<lambda>c active. if P c then active @ [c] else active) xs acc = acc @ filter P xs"
  by (induction xs arbitrary: acc) simp_all

lemma getActive_filter:
  "p < length (peerObjs s) \<Longrightarrow>
   getActive p s =
     Some (filter (IsActive (connStates s))
             (inboundConnections (peerObjs s ! p) @ outboundConnections (peerObjs s ! p)),
           s, [RLock (PeerMut p), RUnlock (PeerMut p)])"
  by (simp add: getActive_def runWithConnections_def fold_collect)

lemma randConn_picks:
  "cs \<noteq> [] \<Longrightarrow>
   randConn cs s = Some (cs ! (peerRng s 0 mod length cs), s\<lparr>peerRng := (\<lambda>i. peerRng s (Suc i))\<rparr>)"
  by (simp add: randConn_def Intn_def)

lemma Peer_Connect_returns:
  "p < length (peerObjs s) \<Longrightarrow>
   \<exists>res s' evs. Peer_Connect p ctx s = Some (res, s', evs)
      \<and> length (filter isChannelConnect evs) = 1"
  by (auto simp: Peer_Connect_def AddOutboundConnection_def split: prod.splits sum.splits)

text \<open>
  C2. \<^verbatim>\<open>GetConnection\<close> on a peer returns. When some inbound or outbound connection is
  active, it returns one of the active ones, the one at the index that \<^verbatim>\<open>Intn\<close> draws,
  with no error; it performs no event but the read lock of \<^verbatim>\<open>getActive\<close> and changes the
  world in the random source only, so \<^verbatim>\<open>Connect\<close> is not called. When none is active,
  its result and world are those of the one call of \<^verbatim>\<open>Peer.Connect\<close>, which calls the
  channel's \<^verbatim>\<open>Connect\<close> once: an error exactly when that call fails.
\<close>

theorem GetConnection_reuses_active:
  assumes "p < length (peerObjs s)"
  shows "(filter (IsActive (connStates s))
            (inboundConnections (peerObjs s ! p) @ outboundConnections (peerObjs s ! p)) \<noteq> [] \<longrightarrow>
          (\<exists>c. GetConnection p ctx s =
                  Some (Inr c, s\<lparr>peerRng := (\<lambda>i. peerRng s (Suc i))\<rparr>,
                        [RLock (PeerMut p), RUnlock (PeerMut p)])
             \<and> c \<in> set (inboundConnections (peerObjs s ! p) @ outboundConnections (peerObjs s ! p))
             \<and> IsActive (connStates s) c
             \<and> c = filter (IsActive (connStates s))
                   (inboundConnections (peerObjs s ! p) @ outboundConnections (peerObjs s ! p))
                 ! (peerRng s 0 mod length (filter (IsActive (connStates s))
                   (inboundConnections (peerObjs s ! p) @ outboundConnections (peerObjs s ! p))))))
       \<and> (filter (IsActive (connStates s))
            (inboundConnections (peerObjs s ! p) @ outboundConnections (peerObjs s ! p)) = [] \<longrightarrow>
          (\<exists>res s' evs. Peer_Connect p ctx s = Some (res, s', evs)
             \<and> GetConnection p ctx s =
                  Some (res, s', [RLock (PeerMut p), RUnlock (PeerMut p)] @ evs)
             \<and> length (filter isChannelConnect evs) = 1))"
proof -
  define active where "active = filter (IsActive (connStates s))
     (inboundConnections (peerObjs s ! p) @ outboundConnections (peerObjs s ! p))"
  have ga: "getActive p s = Some (active, s, [RLock (PeerMut p), RUnlock (PeerMut p)])"
    unfolding active_def using assms by (rule getActive_filter)
  have reuse: "\<exists>c. GetConnection p ctx s =
                  Some (Inr c, s\<lparr>peerRng := (\<lambda>i. peerRng s (Suc i))\<rparr>,
                        [RLock (PeerMut p), RUnlock (PeerMut p)])
             \<and> c \<in> set (inboundConnections (peerObjs s ! p) @ outboundConnections (peerObjs s ! p))
             \<and> IsActive (connStates s) c
             \<and> c = active ! (peerRng s 0 mod length active)" if ne: "active \<noteq> []"
  proof -
    have "active ! (peerRng s 0 mod length active) \<in> set active"
      using ne by (intro nth_mem) simp
    then have m: "active ! (peerRng s 0 mod length active)
        \<in> set (inboundConnections (peerObjs s ! p) @ outboundConnections (peerObjs s ! p))
        \<and> IsActive (connStates s) (active ! (peerRng s 0 mod length active))"
      unfolding active_def set_filter by blast
    have "GetConnection p ctx s =
        Some (Inr (active ! (peerRng s 0 mod length active)),
              s\<lparr>peerRng := (\<lambda>i. peerRng s (Suc i))\<rparr>, [RLock (PeerMut p), RUnlock (PeerMut p)])"
      using ne by (simp add: GetConnection_def ga randConn_picks)
    with m show ?thesis by blast
  qed
  have fresh: "\<exists>res s' evs. Peer_Connect p ctx s = Some (res, s', evs)
             \<and> GetConnection p ctx s =
                  Some (res, s', [RLock (PeerMut p), RUnlock (PeerMut p)] @ evs)
             \<and> length (filter isChannelConnect evs) = 1" if e: "active = []"
  proof -
    obtain res s' evs where c: "Peer_Connect p ctx s = Some (res, s', evs)"
      and one: "length (filter isChannelConnect evs) = 1"
      using Peer_Connect_returns [OF assms] by blast
    have "GetConnection p ctx s = Some (res, s', [RLock (PeerMut p), RUnlock (PeerMut p)] @ evs)"
      using e c by (cases res) (simp_all add: GetConnection_def ga)
    with c one show ?thesis by blast
  qed
  from reuse fresh show ?thesis unfolding active_def by blast
qed

theorem GetConnection_reuses_active_witness:
  "0 < length (peerObjs exWorld1) \<and> 1 < length (peerObjs exWorld2)
   \<and> GetConnection 0 (Context 0) exWorld1 =
       Some (Inr 3, exWorld1\<lparr>peerRng := (\<lambda>i. Suc i)\<rparr>, [RLock (PeerMut 0), RUnlock (PeerMut 0)])
   \<and> (\<exists>s'. GetConnection 0 (Context 0) exWorld2 =
       Some (Inr 7, s', [RLock (PeerMut 0), RUnlock (PeerMut 0), ChannelConnect ''10.0.0.1:4040'',
                         Lock (PeerMut 0), Unlock (PeerMut 0)])
       \<and> outboundConnections (peerObjs s' ! 0) = [4, 7])
   \<and> GetConnection 1 (Context 0) exWorld2 =
       Some (Inl (ErrExternal ''refused''), exWorld2,
             [RLock (PeerMut 1), RUnlock (PeerMut 1), ChannelConnect ''10.0.0.2:4040''])"
  using GetConnection_reuses_active [of 0 exWorld1 "Context 0"]
    GetConnection_reuses_active [of 1 exWorld2 "Context 0"]
  by (simp add: exWorld1_def exWorld2_def GetConnection_def getActive_def runWithConnections_def
      IsActive_def readState_def randConn_def Intn_def Peer_Connect_def exChannel_def
      AddOutboundConnection_def)

subsection \<open>Closing\<close>



lemma closeEvents_connStates [simp]: "closeEvents (s\<lparr>connStates := cs\<rparr>) = closeEvents s"
  by (simp add: closeEvents_def fun_eq_iff)




subsection \<open>Beginning a call\<close>

text \<open>
  C8. When \<^verbatim>\<open>GetConnection\<close> returns, \<^verbatim>\<open>BeginCall\<close> returns: the error of
  \<^verbatim>\<open>GetConnection\<close> if it failed, and otherwise the result of the connection's
  \<^verbatim>\<open>beginCall\<close>, called with the given call options or, when they are nil, with the
  default ones. It returns an error exactly when one of the two steps fails.
\<close>

theorem BeginCall_forwards:
  assumes "GetConnection p ctx s = Some (g, s1, evs)"
  shows "(\<forall>err. g = Inl err \<longrightarrow>
            BeginCall X p ctx serviceName operationName callOptions s = Some (Inl err, s1, evs))
       \<and> (\<forall>conn. g = Inr conn \<longrightarrow>
            BeginCall X p ctx serviceName operationName callOptions s =
              Some (fst (connBeginCall X conn ctx serviceName
                           (case callOptions of None \<Rightarrow> defaultCallOptions X | Some co \<Rightarrow> co)
                           operationName (connStates s1)),
                    s1\<lparr>connStates := snd (connBeginCall X conn ctx serviceName
                           (case callOptions of None \<Rightarrow> defaultCallOptions X | Some co \<Rightarrow> co)
                           operationName (connStates s1))\<rparr>,
                    evs @ [ConnectionBeginCall conn]))
       \<and> (\<exists>r s' evs'. BeginCall X p ctx serviceName operationName callOptions s = Some (r, s', evs')
            \<and> (isl r) =
               (isl g \<or> (\<exists>conn. g = Inr conn \<and>
                   isl (fst (connBeginCall X conn ctx serviceName
                           (case callOptions of None \<Rightarrow> defaultCallOptions X | Some co \<Rightarrow> co)
                           operationName (connStates s1))))))"
  using assms
  by (cases g) (auto simp: BeginCall_def split: prod.splits sum.splits)

theorem BeginCall_forwards_witness:
  "GetConnection 0 (Context 0) exWorld1 =
       Some (Inr 3, exWorld1\<lparr>peerRng := (\<lambda>i. Suc i)\<rparr>, [RLock (PeerMut 0), RUnlock (PeerMut 0)])
   \<and> BeginCall exX 0 (Context 0) ''keyvalue'' ''get'' None exWorld1 =
       Some (Inr (OutboundCall 3), exWorld1\<lparr>peerRng := (\<lambda>i. Suc i)\<rparr>,
             [RLock (PeerMut 0), RUnlock (PeerMut 0), ConnectionBeginCall 3])"
proof -
  have g: "GetConnection 0 (Context 0) exWorld1 =
       Some (Inr 3, exWorld1\<lparr>peerRng := (\<lambda>i. Suc i)\<rparr>, [RLock (PeerMut 0), RUnlock (PeerMut 0)])"
    by (simp add: exWorld1_def GetConnection_def getActive_def runWithConnections_def
      IsActive_def readState_def randConn_def Intn_def)
  show ?thesis
    using g BeginCall_forwards [OF g, of exX "''keyvalue''" "''get''" None]
    by (simp add: exX_def exWorld1_def)
qed

subsection \<open>Adding a peer\<close>

lemma Add_found:
  "l < length (listObjs s) \<Longrightarrow> peersByHostPort (listObjs s ! l) hp = Some p \<Longrightarrow>
   PeerList_Add l hp s = Some (p, s, [RLock (ListMut l), RUnlock (ListMut l)])"
  by (subst PeerList_Add.simps) (simp add: domI)

lemma Add_out_of_range: "\<not> l < length (listObjs s) \<Longrightarrow> PeerList_Add l hp s = None"
  by (subst PeerList_Add.simps) simp

lemma Add_root:
  "l < length (listObjs s) \<Longrightarrow> peersByHostPort (listObjs s ! l) hp = None \<Longrightarrow>
   parent (listObjs s ! l) = None \<Longrightarrow> PeerList_Add l hp s = Some (addRoot l hp s)"
  by (subst PeerList_Add.simps) (simp add: domIff isRoot_def)

lemma Add_delegates:
  "l < length (listObjs s) \<Longrightarrow> peersByHostPort (listObjs s ! l) hp = None \<Longrightarrow>
   parent (listObjs s ! l) = Some q \<Longrightarrow>
   PeerList_Add l hp s = map_option (addFromParent l hp) (PeerList_Add q hp s)"
  by (subst PeerList_Add.simps) (cases "PeerList_Add q hp s"; simp add: domIff isRoot_def)

lemma listObjs_addEntry [simp]:
  "listObjs (addEntry l hp p s) =
     (listObjs s)[l := (listObjs s ! l)
          \<lparr>peersByHostPort := (peersByHostPort (listObjs s ! l))(hp \<mapsto> p),
           peers := peers (listObjs s ! l) @ [p]\<rparr>]"
  and peerObjs_addEntry [simp]: "peerObjs (addEntry l hp p s) = peerObjs s"
  and connStates_addEntry [simp]: "connStates (addEntry l hp p s) = connStates s"
  and peerRng_addEntry [simp]: "peerRng (addEntry l hp p s) = peerRng s"
  by (simp_all add: addEntry_def)

lemma Add_indexes:
  assumes "PeerList_Add l hp s = Some y"
  shows "l < length (listObjs s) \<and> length (listObjs (fst (snd y))) = length (listObjs s)
   \<and> peersByHostPort (listObjs (fst (snd y)) ! l) hp = Some (fst y)"
proof (rule PeerList_Add.raw_induct [where P = "\<lambda>l hp s y.
    l < length (listObjs s) \<and> length (listObjs (fst (snd y))) = length (listObjs s)
    \<and> peersByHostPort (listObjs (fst (snd y)) ! l) hp = Some (fst y)", OF _ assms])
  fix Add l hp s y
  assume IH: "\<And>l hp s y. Add l hp s = Some y \<Longrightarrow>
      l < length (listObjs s) \<and> length (listObjs (fst (snd y))) = length (listObjs s)
      \<and> peersByHostPort (listObjs (fst (snd y)) ! l) hp = Some (fst y)"
    and eq: "(if l < length (listObjs s) then
        (if hp \<in> dom (peersByHostPort (listObjs s ! l)) then
           Some (the (peersByHostPort (listObjs s ! l) hp), s,
                 [RLock (ListMut l), RUnlock (ListMut l)])
         else if hp \<in> dom (peersByHostPort (listObjs s ! l)) then
           Some (the (peersByHostPort (listObjs s ! l) hp), s,
                 [RLock (ListMut l), RUnlock (ListMut l), Lock (ListMut l), Unlock (ListMut l)])
         else if isRoot (listObjs s ! l) then Some (addRoot l hp s)
         else
           Option.bind (Add (the (parent (listObjs s ! l))) hp s)
             (\<lambda>r. Some (addFromParent l hp r)))
      else None) = Some y"
  from eq have l: "l < length (listObjs s)" by (simp split: if_splits)
  show "l < length (listObjs s) \<and> length (listObjs (fst (snd y))) = length (listObjs s)
    \<and> peersByHostPort (listObjs (fst (snd y)) ! l) hp = Some (fst y)"
  proof (cases "peersByHostPort (listObjs s ! l) hp")
    case (Some p)
    with eq l show ?thesis by (auto simp: domIff)
  next
    case None
    show ?thesis
    proof (cases "isRoot (listObjs s ! l)")
      case True
      with eq l None show ?thesis
        by (auto simp: domIff addRoot_def newPeer_def addEntry_def)
    next
      case False
      with eq l None obtain r where
        r: "Add (the (parent (listObjs s ! l))) hp s = Some r" and y: "y = addFromParent l hp r"
        by (auto simp: domIff split: bind_splits)
      from IH [OF r] have "length (listObjs (fst (snd r))) = length (listObjs s)" by simp
      with l y show ?thesis by (cases r) (simp add: addFromParent_def)
    qed
  qed
qed

lemma exAdd: "PeerList_Add 0 ''10.0.0.2:4040'' exWorld1 =
       Some (1, exAdded, [RLock (ListMut 0), RUnlock (ListMut 0), Lock (ListMut 0), Unlock (ListMut 0)])"
  by (simp add: Add_root exWorld1_def exAdded_def addRoot_def newPeer_def addEntry_def)

lemma exChildAdd:
  "PeerList_Add 1 ''10.0.0.1:4040'' exParentChild =
     Some (0, exChildAdded,
           [RLock (ListMut 1), RUnlock (ListMut 1), Lock (ListMut 1),
            RLock (ListMut 0), RUnlock (ListMut 0), Lock (ListMut 0), Unlock (ListMut 0),
            Unlock (ListMut 1)])"
  by (simp add: Add_delegates Add_root exParentChild_def exChildAdded_def exWorld_def exRoot_def
      addRoot_def addFromParent_def newPeer_def addEntry_def)

lemma exParentChild_below: "parentsBelow exParentChild"
  by (simp add: parentsBelow_def exParentChild_def exWorld_def exRoot_def All_less_Suc numeral_eq_Suc)

text \<open>
  \<^verbatim>\<open>Add\<close> returns on every list of a store where the parents were allocated before their
  children: the chain of parents goes down and ends in a root. Every store that the
  constructors and the methods build from an empty one is such a store (\<open>run_parentsBelow\<close>
  below).
\<close>

lemma Add_returns:
  "parentsBelow s \<Longrightarrow> l < length (listObjs s) \<Longrightarrow> \<exists>y. PeerList_Add l hp s = Some y"
proof (induction l rule: less_induct)
  case (less l)
  show ?case
  proof (cases "peersByHostPort (listObjs s ! l) hp")
    case (Some p)
    with less.prems show ?thesis by (simp add: Add_found)
  next
    case None
    show ?thesis
    proof (cases "parent (listObjs s ! l)")
      case no: None
      with None less.prems have "PeerList_Add l hp s = Some (addRoot l hp s)"
        by (simp add: Add_root)
      then show ?thesis by blast
    next
      case (Some q)
      with less.prems have "q < l" by (simp add: parentsBelow_def)
      with less.IH less.prems obtain r where "PeerList_Add q hp s = Some r" by fastforce
      with Add_delegates [OF less.prems(2) None Some]
      have "PeerList_Add l hp s = Some (addFromParent l hp r)" by simp
      then show ?thesis by blast
    qed
  qed
qed

text \<open>
  C6. When the list already indexes the address, \<^verbatim>\<open>Add\<close> and \<^verbatim>\<open>GetOrAdd\<close> return the
  indexed peer and leave the world as it was. After an \<^verbatim>\<open>Add\<close> that returned, a second
  \<^verbatim>\<open>Add\<close> of the same address on the same list returns the same peer and changes
  nothing. When the list does not index the address, \<^verbatim>\<open>GetOrAdd\<close> is \<^verbatim>\<open>Add\<close>: the same
  peer and the same world, or no return when \<^verbatim>\<open>Add\<close> does not return, after one more
  read-locked lookup. And on every list of a store where the parents were allocated
  before their children, root or not, indexed or not, \<^verbatim>\<open>Add\<close> does return, \<^verbatim>\<open>GetOrAdd\<close>
  returns the same peer and world, and a second \<^verbatim>\<open>Add\<close> or \<^verbatim>\<open>GetOrAdd\<close> returns that
  peer again and changes nothing.
\<close>

theorem Add_idempotent:
  "(l < length (listObjs s) \<and> peersByHostPort (listObjs s ! l) hp = Some p \<longrightarrow>
      PeerList_Add l hp s = Some (p, s, [RLock (ListMut l), RUnlock (ListMut l)])
      \<and> PeerList_GetOrAdd l hp s = Some (p, s, [RLock (ListMut l), RUnlock (ListMut l)]))
   \<and> (PeerList_Add l hp s = Some (p', s1, evs) \<longrightarrow>
      PeerList_Add l hp s1 = Some (p', s1, [RLock (ListMut l), RUnlock (ListMut l)]))
   \<and> (hp \<notin> dom (peersByHostPort (listObjs s ! l)) \<longrightarrow>
      PeerList_GetOrAdd l hp s =
        map_option (\<lambda>r. (fst r, fst (snd r), [RLock (ListMut l), RUnlock (ListMut l)] @ snd (snd r)))
          (PeerList_Add l hp s))
   \<and> (parentsBelow s \<and> l < length (listObjs s) \<longrightarrow>
      (\<exists>q t evs1 evs2.
          PeerList_Add l hp s = Some (q, t, evs1)
          \<and> PeerList_Add l hp t = Some (q, t, [RLock (ListMut l), RUnlock (ListMut l)])
          \<and> PeerList_GetOrAdd l hp s = Some (q, t, evs2)
          \<and> PeerList_GetOrAdd l hp t = Some (q, t, [RLock (ListMut l), RUnlock (ListMut l)])))"
proof (intro conjI impI)
  assume a: "l < length (listObjs s) \<and> peersByHostPort (listObjs s ! l) hp = Some p"
  then show "PeerList_Add l hp s = Some (p, s, [RLock (ListMut l), RUnlock (ListMut l)])"
    by (simp add: Add_found)
  from a show "PeerList_GetOrAdd l hp s = Some (p, s, [RLock (ListMut l), RUnlock (ListMut l)])"
    by (simp add: PeerList_GetOrAdd_def domI)
next
  assume "PeerList_Add l hp s = Some (p', s1, evs)"
  from Add_indexes [OF this]
  have "l < length (listObjs s1)" and "peersByHostPort (listObjs s1 ! l) hp = Some p'"
    by simp_all
  then show "PeerList_Add l hp s1 = Some (p', s1, [RLock (ListMut l), RUnlock (ListMut l)])"
    by (rule Add_found)
next
  assume n: "hp \<notin> dom (peersByHostPort (listObjs s ! l))"
  show "PeerList_GetOrAdd l hp s =
        map_option (\<lambda>r. (fst r, fst (snd r), [RLock (ListMut l), RUnlock (ListMut l)] @ snd (snd r)))
          (PeerList_Add l hp s)"
  proof (cases "l < length (listObjs s)")
    case True
    with n show ?thesis
      by (cases "PeerList_Add l hp s") (auto simp: PeerList_GetOrAdd_def)
  next
    case False
    then show ?thesis by (simp add: PeerList_GetOrAdd_def Add_out_of_range)
  qed
next
  assume a: "parentsBelow s \<and> l < length (listObjs s)"
  then obtain y where y: "PeerList_Add l hp s = Some y" using Add_returns by blast
  obtain q t evs1 where y3: "y = (q, t, evs1)" by (cases y) auto
  from Add_indexes [OF y] y3
  have lt: "l < length (listObjs t)" and idx: "peersByHostPort (listObjs t ! l) hp = Some q"
    by simp_all
  then have again: "PeerList_Add l hp t = Some (q, t, [RLock (ListMut l), RUnlock (ListMut l)])"
    by (rule Add_found)
  from lt idx
  have goa2: "PeerList_GetOrAdd l hp t = Some (q, t, [RLock (ListMut l), RUnlock (ListMut l)])"
    by (simp add: PeerList_GetOrAdd_def domI)
  have "\<exists>evs2. PeerList_GetOrAdd l hp s = Some (q, t, evs2)"
  proof (cases "hp \<in> dom (peersByHostPort (listObjs s ! l))")
    case True
    then obtain p0 where p0: "peersByHostPort (listObjs s ! l) hp = Some p0" by auto
    with a have "PeerList_Add l hp s = Some (p0, s, [RLock (ListMut l), RUnlock (ListMut l)])"
      by (simp add: Add_found)
    with y y3 have "p0 = q" and "s = t" by simp_all
    with a p0 show ?thesis by (simp add: PeerList_GetOrAdd_def domI)
  next
    case False
    with a y y3 show ?thesis by (simp add: PeerList_GetOrAdd_def)
  qed
  with y y3 again goa2
  show "\<exists>q t evs1 evs2.
          PeerList_Add l hp s = Some (q, t, evs1)
          \<and> PeerList_Add l hp t = Some (q, t, [RLock (ListMut l), RUnlock (ListMut l)])
          \<and> PeerList_GetOrAdd l hp s = Some (q, t, evs2)
          \<and> PeerList_GetOrAdd l hp t = Some (q, t, [RLock (ListMut l), RUnlock (ListMut l)])"
    by blast
qed

theorem Add_idempotent_witness:
  "0 < length (listObjs exWorld1)
   \<and> peersByHostPort (listObjs exWorld1 ! 0) ''10.0.0.1:4040'' = Some 0
   \<and> PeerList_Add 0 ''10.0.0.1:4040'' exWorld1 =
       Some (0, exWorld1, [RLock (ListMut 0), RUnlock (ListMut 0)])
   \<and> PeerList_Add 0 ''10.0.0.2:4040'' exWorld1 =
       Some (1, exAdded, [RLock (ListMut 0), RUnlock (ListMut 0), Lock (ListMut 0), Unlock (ListMut 0)])
   \<and> PeerList_Add 0 ''10.0.0.2:4040'' exAdded =
       Some (1, exAdded, [RLock (ListMut 0), RUnlock (ListMut 0)])
   \<and> ''10.0.0.2:4040'' \<notin> dom (peersByHostPort (listObjs exWorld1 ! 0))
   \<and> PeerList_GetOrAdd 0 ''10.0.0.2:4040'' exWorld1 =
       Some (1, exAdded, [RLock (ListMut 0), RUnlock (ListMut 0), RLock (ListMut 0),
                          RUnlock (ListMut 0), Lock (ListMut 0), Unlock (ListMut 0)])
   \<and> parentsBelow exParentChild \<and> 1 < length (listObjs exParentChild)
   \<and> PeerList_Add 1 ''10.0.0.1:4040'' exParentChild =
       Some (0, exChildAdded,
           [RLock (ListMut 1), RUnlock (ListMut 1), Lock (ListMut 1),
            RLock (ListMut 0), RUnlock (ListMut 0), Lock (ListMut 0), Unlock (ListMut 0),
            Unlock (ListMut 1)])
   \<and> PeerList_Add 1 ''10.0.0.1:4040'' exChildAdded =
       Some (0, exChildAdded, [RLock (ListMut 1), RUnlock (ListMut 1)])
   \<and> PeerList_GetOrAdd 1 ''10.0.0.1:4040'' exChildAdded =
       Some (0, exChildAdded, [RLock (ListMut 1), RUnlock (ListMut 1)])"
proof -
  have a: "0 < length (listObjs exWorld1)
      \<and> peersByHostPort (listObjs exWorld1 ! 0) ''10.0.0.1:4040'' = Some 0"
    by (simp add: exWorld1_def)
  have n: "''10.0.0.2:4040'' \<notin> dom (peersByHostPort (listObjs exWorld1 ! 0))"
    by (simp add: exWorld1_def)
  have c: "1 < length (listObjs exParentChild)"
    by (simp add: exParentChild_def exWorld_def)
  show ?thesis
    using a n c exAdd exChildAdd exParentChild_below
      Add_idempotent [of 0 exWorld1 "''10.0.0.1:4040''" 0]
      Add_idempotent [of 0 exWorld1 "''10.0.0.2:4040''" 0 1 exAdded]
      Add_idempotent [of 1 exParentChild "''10.0.0.1:4040''" 0]
    by simp
qed

subsection \<open>Lists of one tree\<close>

lemma exSiblings_made:
  "newPeerList exX exChannel exWorld = (0, exWorld\<lparr>listObjs := [exRoot]\<rparr>)
   \<and> newSibling exX 0 (exWorld\<lparr>listObjs := [exRoot]\<rparr>) = Some (1, exSiblings)"
  by (simp add: newPeerList_def newSibling_def setParent_def exWorld_def exRoot_def exX_def
      exSiblings_def)

lemma exParentChild_made:
  "newPeerList exX exChannel exWorld = (0, exWorld\<lparr>listObjs := [exRoot]\<rparr>)
   \<and> newChild exX 0 (exWorld\<lparr>listObjs := [exRoot]\<rparr>) = Some (1, exParentChild)"
  by (simp add: newPeerList_def newChild_def setParent_def exWorld_def exRoot_def exX_def
      exParentChild_def)

text \<open>
  C1, on the code. A list made by \<^verbatim>\<open>newSibling\<close> from a root has the parent of the root,
  which is nil: it is a root of its own. After \<^verbatim>\<open>Add\<close> of an address on the root, \<^verbatim>\<open>Add\<close>
  of the same address on the sibling returns another peer, and the store holds two
  peers for the one host:port.
\<close>

theorem sibling_of_root_makes_second_peer:
  "newPeerList exX exChannel exWorld = (0, exWorld\<lparr>listObjs := [exRoot]\<rparr>)
   \<and> newSibling exX 0 (exWorld\<lparr>listObjs := [exRoot]\<rparr>) = Some (1, exSiblings)
   \<and> (\<exists>s1 s2 evs1 evs2.
         PeerList_Add 0 ''10.0.0.1:4040'' exSiblings = Some (0, s1, evs1)
         \<and> PeerList_Add 1 ''10.0.0.1:4040'' s1 = Some (1, s2, evs2)
         \<and> map hostPort (peerObjs s2) = [''10.0.0.1:4040'', ''10.0.0.1:4040'']
         \<and> map parent (listObjs s2) = [None, None])"
  using exSiblings_made
  by (simp add: Add_root exSiblings_def exWorld_def exRoot_def addRoot_def newPeer_def addEntry_def)

subsection \<open>What is locked during a call\<close>









subsection \<open>The store stays well formed\<close>

lemma map_eq_nth: "map f xs = map f ys \<Longrightarrow> i < length ys \<Longrightarrow> f (xs ! i) = f (ys ! i)"
  by (metis map_eq_imp_length_eq nth_map)

lemma sameIndex_refl [simp]: "sameIndex s s"
  by (simp add: sameIndex_def)

lemma sameIndex_trans: "sameIndex s s1 \<Longrightarrow> sameIndex s1 s2 \<Longrightarrow> sameIndex s s2"
  by (simp add: sameIndex_def)

lemma storeInv_sameIndex:
  assumes inv: "storeInv s" and same: "sameIndex s s'"
  shows "storeInv s'"
proof -
  from same have m1: "map parent (listObjs s') = map parent (listObjs s)"
    and m2: "map peersByHostPort (listObjs s') = map peersByHostPort (listObjs s)"
    and m3: "map peers (listObjs s') = map peers (listObjs s)"
    and m4: "map hostPort (peerObjs s') = map hostPort (peerObjs s)"
    by (simp_all add: sameIndex_def)
  from m1 have len: "length (listObjs s') = length (listObjs s)"
    by (rule map_eq_imp_length_eq)
  from m4 have plen: "length (peerObjs s') = length (peerObjs s)"
    by (rule map_eq_imp_length_eq)
  have par: "parent (listObjs s' ! l) = parent (listObjs s ! l)" if "l < length (listObjs s)" for l
    using m1 that by (rule map_eq_nth)
  have idx: "peersByHostPort (listObjs s' ! l) = peersByHostPort (listObjs s ! l)"
    if "l < length (listObjs s)" for l
    using m2 that by (rule map_eq_nth)
  have seq: "peers (listObjs s' ! l) = peers (listObjs s ! l)" if "l < length (listObjs s)" for l
    using m3 that by (rule map_eq_nth)
  have hps: "hostPort (peerObjs s' ! p) = hostPort (peerObjs s ! p)" if "p < length (peerObjs s)" for p
    using m4 that by (rule map_eq_nth)
  from inv have pb: "parentsBelow s" and kb: "keyedByHostPort s" and si: "sequenceIsIndex s"
    and sp: "subsetOfParent s"
    by (simp_all add: storeInv_def)
  have "parentsBelow s'"
    using pb len par by (simp add: parentsBelow_def)
  moreover have "keyedByHostPort s'"
    unfolding keyedByHostPort_def
  proof (intro allI impI)
    fix l a p
    assume l: "l < length (listObjs s')" and a: "peersByHostPort (listObjs s' ! l) a = Some p"
    from l len have l': "l < length (listObjs s)" by simp
    with a idx have "peersByHostPort (listObjs s ! l) a = Some p" by simp
    with kb l' have p: "p < length (peerObjs s)" and h: "hostPort (peerObjs s ! p) = a"
      by (simp_all add: keyedByHostPort_def)
    with plen hps show "p < length (peerObjs s') \<and> hostPort (peerObjs s' ! p) = a" by simp
  qed
  moreover have "sequenceIsIndex s'"
    using si len idx seq by (simp add: sequenceIsIndex_def)
  moreover have "subsetOfParent s'"
    unfolding subsetOfParent_def
  proof (intro allI impI)
    fix l q
    assume l: "l < length (listObjs s')" and q: "parent (listObjs s' ! l) = Some q"
    from l len have l': "l < length (listObjs s)" by simp
    with q par have q': "parent (listObjs s ! l) = Some q" by simp
    with pb l' have "q < l" by (simp add: parentsBelow_def)
    with l' have ql: "q < length (listObjs s)" by simp
    from sp l' q' have "peersByHostPort (listObjs s ! l) \<subseteq>\<^sub>m peersByHostPort (listObjs s ! q)"
      by (simp add: subsetOfParent_def)
    with idx [OF l'] idx [OF ql]
    show "peersByHostPort (listObjs s' ! l) \<subseteq>\<^sub>m peersByHostPort (listObjs s' ! q)" by simp
  qed
  ultimately show ?thesis by (simp add: storeInv_def)
qed

lemma storeInv_addEntry:
  assumes inv: "storeInv s" and l: "l < length (listObjs s)"
    and fresh: "peersByHostPort (listObjs s ! l) hp = None"
    and p: "p < length (peerObjs s)" and hp: "hostPort (peerObjs s ! p) = hp"
    and par: "\<And>q. parent (listObjs s ! l) = Some q \<Longrightarrow> peersByHostPort (listObjs s ! q) hp = Some p"
  shows "storeInv (addEntry l hp p s)"
proof -
  from inv have pb: "parentsBelow s" and kb: "keyedByHostPort s" and si: "sequenceIsIndex s"
    and sp: "subsetOfParent s"
    by (simp_all add: storeInv_def)
  let ?s = "addEntry l hp p s"
  have nth: "\<And>k. k < length (listObjs s) \<Longrightarrow> listObjs ?s ! k =
      (if k = l then (listObjs s ! l)
          \<lparr>peersByHostPort := (peersByHostPort (listObjs s ! l))(hp \<mapsto> p),
           peers := peers (listObjs s ! l) @ [p]\<rparr> else listObjs s ! k)"
    by (simp add: nth_list_update)
  have "parentsBelow ?s"
    using pb l by (auto simp: parentsBelow_def nth_list_update split: if_splits)
  moreover have "keyedByHostPort ?s"
    using kb p hp l unfolding keyedByHostPort_def
    by (auto simp: nth_list_update split: if_splits)
  moreover have "sequenceIsIndex ?s"
    unfolding sequenceIsIndex_def
  proof (intro allI impI)
    fix k assume k: "k < length (listObjs ?s)"
    then have k': "k < length (listObjs s)" by simp
    show "set (peers (listObjs ?s ! k)) = ran (peersByHostPort (listObjs ?s ! k))
        \<and> distinct (peers (listObjs ?s ! k))"
    proof (cases "k = l")
      case False
      with si k' l show ?thesis by (simp add: sequenceIsIndex_def nth_list_update)
    next
      case True
      from si l have set: "set (peers (listObjs s ! l)) = ran (peersByHostPort (listObjs s ! l))"
        and dist: "distinct (peers (listObjs s ! l))"
        by (simp_all add: sequenceIsIndex_def)
      have "p \<notin> ran (peersByHostPort (listObjs s ! l))"
      proof
        assume "p \<in> ran (peersByHostPort (listObjs s ! l))"
        then obtain a where a: "peersByHostPort (listObjs s ! l) a = Some p"
          by (auto simp: ran_def)
        with kb l have "hostPort (peerObjs s ! p) = a" by (simp add: keyedByHostPort_def)
        with hp a fresh show False by simp
      qed
      with set dist fresh True l show ?thesis by simp
    qed
  qed
  moreover have "subsetOfParent ?s"
    unfolding subsetOfParent_def
  proof (intro allI impI)
    fix k q
    assume k: "k < length (listObjs ?s)" and q: "parent (listObjs ?s ! k) = Some q"
    from k have k': "k < length (listObjs s)" by simp
    from q k' l have q': "parent (listObjs s ! k) = Some q"
      by (simp add: nth_list_update split: if_splits)
    with pb k' have "q < k" by (simp add: parentsBelow_def)
    with k' have ql: "q < length (listObjs s)" by simp
    from sp k' q' have sub: "peersByHostPort (listObjs s ! k) \<subseteq>\<^sub>m peersByHostPort (listObjs s ! q)"
      by (simp add: subsetOfParent_def)
    show "peersByHostPort (listObjs ?s ! k) \<subseteq>\<^sub>m peersByHostPort (listObjs ?s ! q)"
    proof (cases "k = l")
      case True
      with \<open>q < k\<close> have "q \<noteq> l" by simp
      moreover from True q' par have "peersByHostPort (listObjs s ! q) hp = Some p" by simp
      ultimately show ?thesis
        using True l ql sub by (auto simp: map_le_def nth_list_update)
    next
      case False
      show ?thesis
      proof (cases "q = l")
        case True
        with False k' ql l sub fresh show ?thesis
          by (auto simp: map_le_def nth_list_update dom_def)
      next
        case qf: False
        with False k' ql l sub show ?thesis by (simp add: nth_list_update)
      qed
    qed
  qed
  ultimately show ?thesis by (simp add: storeInv_def)
qed

lemma storeInv_newPeer:
  assumes "storeInv s"
  shows "storeInv (snd (newPeer ch hp s))"
proof -
  let ?s = "snd (newPeer ch hp s)"
  have lists: "listObjs ?s = listObjs s" by (simp add: newPeer_def)
  from assms have pb: "parentsBelow s" and kb: "keyedByHostPort s" and si: "sequenceIsIndex s"
    and sp: "subsetOfParent s"
    by (simp_all add: storeInv_def)
  have "parentsBelow ?s" using pb by (simp add: parentsBelow_def lists)
  moreover have "keyedByHostPort ?s"
    unfolding keyedByHostPort_def
  proof (intro allI impI)
    fix l a p
    assume "l < length (listObjs ?s)" and "peersByHostPort (listObjs ?s ! l) a = Some p"
    with kb have "p < length (peerObjs s) \<and> hostPort (peerObjs s ! p) = a"
      by (simp add: keyedByHostPort_def lists)
    then show "p < length (peerObjs ?s) \<and> hostPort (peerObjs ?s ! p) = a"
      by (simp add: newPeer_def nth_append)
  qed
  moreover have "sequenceIsIndex ?s" using si by (simp add: sequenceIsIndex_def lists)
  moreover have "subsetOfParent ?s" using sp by (simp add: subsetOfParent_def lists)
  ultimately show ?thesis by (simp add: storeInv_def)
qed

lemma Add_spec:
  "storeInv s \<Longrightarrow> l < length (listObjs s) \<Longrightarrow>
   \<exists>p s' evs. PeerList_Add l hp s = Some (p, s', evs) \<and> storeInv s'
      \<and> peersByHostPort (listObjs s' ! l) hp = Some p
      \<and> length (listObjs s') = length (listObjs s)
      \<and> map parent (listObjs s') = map parent (listObjs s)
      \<and> (\<forall>k. l < k \<longrightarrow> k < length (listObjs s) \<longrightarrow> listObjs s' ! k = listObjs s ! k)"
proof (induction l rule: less_induct)
  case (less l)
  note inv = less.prems(1) and l = less.prems(2)
  show ?case
  proof (cases "peersByHostPort (listObjs s ! l) hp")
    case (Some p)
    with inv l show ?thesis by (simp add: Add_found)
  next
    case None
    show ?thesis
    proof (cases "parent (listObjs s ! l)")
      case root: None
      let ?s1 = "snd (newPeer (channel (listObjs s ! l)) hp s)"
      let ?p = "length (peerObjs s)"
      have lists1: "listObjs ?s1 = listObjs s" by (simp add: newPeer_def)
      have "storeInv (addEntry l hp ?p ?s1)"
      proof (rule storeInv_addEntry)
        show "storeInv ?s1" using inv by (rule storeInv_newPeer)
        show "l < length (listObjs ?s1)" using l by (simp add: lists1)
        show "peersByHostPort (listObjs ?s1 ! l) hp = None" using None by (simp add: lists1)
        show "?p < length (peerObjs ?s1)" by (simp add: newPeer_def)
        show "hostPort (peerObjs ?s1 ! ?p) = hp" by (simp add: newPeer_def)
        show "\<And>q. parent (listObjs ?s1 ! l) = Some q \<Longrightarrow>
            peersByHostPort (listObjs ?s1 ! q) hp = Some ?p"
          using root by (simp add: lists1)
      qed
      moreover have "PeerList_Add l hp s =
          Some (?p, addEntry l hp ?p ?s1,
                [RLock (ListMut l), RUnlock (ListMut l), Lock (ListMut l), Unlock (ListMut l)])"
        using l None root by (simp add: Add_root addRoot_def newPeer_def)
      moreover have "map parent (listObjs (addEntry l hp ?p ?s1)) = map parent (listObjs s)"
        using l by (simp add: lists1 map_update list_update_same_conv)
      ultimately show ?thesis using l by (simp add: lists1)
    next
      case (Some q)
      with inv l have ql: "q < l" by (simp add: storeInv_def parentsBelow_def)
      with l have qlen: "q < length (listObjs s)" by simp
      from less.IH [OF ql inv qlen] obtain p s1 evs where
        r: "PeerList_Add q hp s = Some (p, s1, evs)" and inv1: "storeInv s1"
        and qhp: "peersByHostPort (listObjs s1 ! q) hp = Some p"
        and len1: "length (listObjs s1) = length (listObjs s)"
        and par1: "map parent (listObjs s1) = map parent (listObjs s)"
        and above: "\<forall>k. q < k \<longrightarrow> k < length (listObjs s) \<longrightarrow> listObjs s1 ! k = listObjs s ! k"
        by blast
      from above ql l have same: "listObjs s1 ! l = listObjs s ! l" by simp
      from inv1 qhp qlen len1 have p: "p < length (peerObjs s1)" and hp: "hostPort (peerObjs s1 ! p) = hp"
        by (simp_all add: storeInv_def keyedByHostPort_def)
      have "storeInv (addEntry l hp p s1)"
      proof (rule storeInv_addEntry)
        show "storeInv s1" by (rule inv1)
        show "l < length (listObjs s1)" using l len1 by simp
        show "peersByHostPort (listObjs s1 ! l) hp = None" using None same by simp
        show "p < length (peerObjs s1)" by (rule p)
        show "hostPort (peerObjs s1 ! p) = hp" by (rule hp)
        show "\<And>q'. parent (listObjs s1 ! l) = Some q' \<Longrightarrow>
            peersByHostPort (listObjs s1 ! q') hp = Some p"
          using Some same qhp by simp
      qed
      moreover have "PeerList_Add l hp s =
          Some (p, addEntry l hp p s1,
                [RLock (ListMut l), RUnlock (ListMut l), Lock (ListMut l)] @ evs @ [Unlock (ListMut l)])"
        using Add_delegates [OF l None Some] r by (simp add: addFromParent_def)
      moreover have "\<forall>k. l < k \<longrightarrow> k < length (listObjs s) \<longrightarrow>
          listObjs (addEntry l hp p s1) ! k = listObjs s ! k"
        using above ql l by simp
      moreover have "map parent (listObjs (addEntry l hp p s1)) = map parent (listObjs s)"
        using par1 l len1 map_eq_nth [OF par1 l, symmetric]
        by (simp add: map_update list_update_same_conv)
      ultimately show ?thesis using l len1 by simp
    qed
  qed
qed

lemma extends_refl [simp]: "extends s s"
  by (simp add: extends_def)

lemma extends_trans: "extends s s1 \<Longrightarrow> extends s1 s2 \<Longrightarrow> extends s s2"
  by (auto simp: extends_def)

lemma extends_map_parent:
  "map parent (listObjs s') = map parent (listObjs s) \<Longrightarrow> extends s s'"
  unfolding extends_def by (metis map_eq_imp_length_eq map_eq_nth order_refl)

lemma sameIndex_extends: "sameIndex s s' \<Longrightarrow> extends s s'"
  by (simp add: sameIndex_def extends_map_parent)

lemma sameIndex_connStates [simp]: "sameIndex s (s\<lparr>connStates := cs\<rparr>)"
  and sameIndex_peerRng [simp]: "sameIndex s (s\<lparr>peerRng := r\<rparr>)"
  by (simp_all add: sameIndex_def)

lemma sameIndex_Get: "PeerList_Get X l s = Some (r, s', evs) \<Longrightarrow> sameIndex s s'"
  by (auto simp: PeerList_Get_def sameIndex_def map_update list_update_same_conv
      split: if_splits prod.splits)

lemma sameIndex_AddInbound: "AddInboundConnection p c s = Some (r, s', evs) \<Longrightarrow> sameIndex s s'"
  by (auto simp: AddInboundConnection_def sameIndex_def map_update list_update_same_conv
      split: if_splits)

lemma sameIndex_AddOutbound: "AddOutboundConnection p c s = Some (r, s', evs) \<Longrightarrow> sameIndex s s'"
  by (auto simp: AddOutboundConnection_def sameIndex_def map_update list_update_same_conv
      split: if_splits)

lemma sameIndex_Connect: "Peer_Connect p ctx s = Some (r, s', evs) \<Longrightarrow> sameIndex s s'"
proof -
  assume a: "Peer_Connect p ctx s = Some (r, s', evs)"
  obtain res cs where c: "Connect (peerChannel (peerObjs s ! p)) ctx (hostPort (peerObjs s ! p))
                (ConnectionOptions (peerChannel (peerObjs s ! p))) (connStates s) = (res, cs)"
    by (cases "Connect (peerChannel (peerObjs s ! p)) ctx (hostPort (peerObjs s ! p))
                (ConnectionOptions (peerChannel (peerObjs s ! p))) (connStates s)")
  show ?thesis
  proof (cases res)
    case (Inl err)
    with a c show ?thesis by (auto simp: Peer_Connect_def split: if_splits)
  next
    case (Inr conn)
    with a c obtain e evs1 where "AddOutboundConnection p conn (s\<lparr>connStates := cs\<rparr>) = Some (e, s', evs1)"
      by (auto simp: Peer_Connect_def split: if_splits option.splits)
    then have "sameIndex (s\<lparr>connStates := cs\<rparr>) s'" by (rule sameIndex_AddOutbound)
    with sameIndex_connStates show ?thesis by (rule sameIndex_trans)
  qed
qed

lemma sameIndex_GetConnection: "GetConnection p ctx s = Some (r, s', evs) \<Longrightarrow> sameIndex s s'"
  by (auto simp: GetConnection_def getActive_def randConn_def
      split: if_splits option.splits prod.splits sum.splits dest: sameIndex_Connect)

lemma sameIndex_BeginCall:
  "BeginCall X p ctx sn opn co s = Some (r, s', evs) \<Longrightarrow> sameIndex s s'"
proof -
  assume a: "BeginCall X p ctx sn opn co s = Some (r, s', evs)"
  then obtain g s1 evs1 where g: "GetConnection p ctx s = Some (g, s1, evs1)"
    by (cases "GetConnection p ctx s") (auto simp: BeginCall_def)
  then have 1: "sameIndex s s1" by (rule sameIndex_GetConnection)
  from a g have "s' = s1 \<or> (\<exists>cs. s' = s1\<lparr>connStates := cs\<rparr>)"
    by (auto simp: BeginCall_def split: sum.splits prod.splits)
  then have "sameIndex s1 s'" by auto
  with 1 show ?thesis by (rule sameIndex_trans)
qed

lemma sameIndex_Peer_Close: "Peer_Close X p s = Some (r, s', evs) \<Longrightarrow> sameIndex s s'"
  by (auto simp: Peer_Close_def split: if_splits prod.splits)

lemma sameIndex_closePeers: "closePeers X ps s = Some (s', evs) \<Longrightarrow> sameIndex s s'"
proof (induction ps arbitrary: s evs)
  case Nil
  then show ?case by simp
next
  case (Cons p ps)
  from Cons.prems obtain u s1 evs1 where 1: "Peer_Close X p s = Some (u, s1, evs1)"
    by (cases "Peer_Close X p s") auto
  with Cons.prems obtain evs2 where 2: "closePeers X ps s1 = Some (s', evs2)"
    by (cases "closePeers X ps s1") auto
  from sameIndex_Peer_Close [OF 1] Cons.IH [OF 2] show ?case by (rule sameIndex_trans)
qed

lemma sameIndex_Close: "PeerList_Close X l s = Some (r, s', evs) \<Longrightarrow> sameIndex s s'"
  by (auto simp: PeerList_Close_def split: if_splits option.splits dest: sameIndex_closePeers)

lemma storeInv_newList:
  assumes inv: "storeInv s" and par: "\<And>q. par = Some q \<Longrightarrow> q < length (listObjs s)"
  shows "storeInv (s\<lparr>listObjs := listObjs s @
           [\<lparr>channel = ch, parent = par, peersByHostPort = Map.empty, peers = [],
             peerSelector = sel\<rparr>]\<rparr>)"
proof -
  let ?L = "\<lparr>channel = ch, parent = par, peersByHostPort = Map.empty, peers = [],
             peerSelector = sel\<rparr>"
  let ?s = "s\<lparr>listObjs := listObjs s @ [?L]\<rparr>"
  from inv have pb: "parentsBelow s" and kb: "keyedByHostPort s" and si: "sequenceIsIndex s"
    and sp: "subsetOfParent s"
    by (simp_all add: storeInv_def)
  have cases: "k < length (listObjs s) \<or> k = length (listObjs s)" if "k < length (listObjs ?s)" for k
    using that by auto
  have "parentsBelow ?s"
    unfolding parentsBelow_def
  proof (intro allI impI)
    fix k q assume k: "k < length (listObjs ?s)" and q: "parent (listObjs ?s ! k) = Some q"
    from cases [OF k] show "q < k"
    proof
      assume "k < length (listObjs s)"
      with q pb show ?thesis by (simp add: nth_append parentsBelow_def)
    next
      assume "k = length (listObjs s)"
      with q par show ?thesis by simp
    qed
  qed
  moreover have "keyedByHostPort ?s"
    unfolding keyedByHostPort_def
  proof (intro allI impI)
    fix k a p assume k: "k < length (listObjs ?s)" and a: "peersByHostPort (listObjs ?s ! k) a = Some p"
    from cases [OF k] show "p < length (peerObjs ?s) \<and> hostPort (peerObjs ?s ! p) = a"
    proof
      assume "k < length (listObjs s)"
      with a kb show ?thesis by (simp add: nth_append keyedByHostPort_def)
    next
      assume "k = length (listObjs s)"
      with a show ?thesis by simp
    qed
  qed
  moreover have "sequenceIsIndex ?s"
    unfolding sequenceIsIndex_def
  proof (intro allI impI)
    fix k assume k: "k < length (listObjs ?s)"
    from cases [OF k] show "set (peers (listObjs ?s ! k)) = ran (peersByHostPort (listObjs ?s ! k))
        \<and> distinct (peers (listObjs ?s ! k))"
    proof
      assume "k < length (listObjs s)"
      with si show ?thesis by (simp add: nth_append sequenceIsIndex_def)
    next
      assume "k = length (listObjs s)"
      then show ?thesis by simp
    qed
  qed
  moreover have "subsetOfParent ?s"
    unfolding subsetOfParent_def
  proof (intro allI impI)
    fix k q assume k: "k < length (listObjs ?s)" and q: "parent (listObjs ?s ! k) = Some q"
    from cases [OF k]
    show "peersByHostPort (listObjs ?s ! k) \<subseteq>\<^sub>m peersByHostPort (listObjs ?s ! q)"
    proof
      assume k': "k < length (listObjs s)"
      with q have q': "parent (listObjs s ! k) = Some q" by (simp add: nth_append)
      with pb k' have "q < k" by (simp add: parentsBelow_def)
      with k' have "q < length (listObjs s)" by simp
      with sp k' q' show ?thesis by (simp add: nth_append subsetOfParent_def)
    next
      assume "k = length (listObjs s)"
      then show ?thesis by simp
    qed
  qed
  ultimately show ?thesis by (simp add: storeInv_def)
qed

lemma newPeerList_storeInv:
  assumes "storeInv s"
  shows "storeInv (snd (newPeerList X ch s))"
proof -
  have "storeInv (s\<lparr>listObjs := listObjs s @
           [\<lparr>channel = ch, parent = None, peersByHostPort = Map.empty, peers = [],
             peerSelector = newPeerSelector X\<rparr>]\<rparr>)"
    using assms by (rule storeInv_newList) simp
  then show ?thesis by (simp add: newPeerList_def)
qed

lemma newSibling_storeInv:
  assumes inv: "storeInv s" and n: "newSibling X l s = Some (sib, s')"
  shows "storeInv s'"
proof -
  from n have l: "l < length (listObjs s)" by (simp add: newSibling_def split: if_splits)
  with n have s': "s' = s\<lparr>listObjs := listObjs s @
           [\<lparr>channel = channel (listObjs s ! l), parent = parent (listObjs s ! l),
             peersByHostPort = Map.empty, peers = [], peerSelector = newPeerSelector X\<rparr>]\<rparr>"
    by (simp add: newSibling_def newPeerList_def setParent_def)
  have "q < length (listObjs s)" if "parent (listObjs s ! l) = Some q" for q
  proof -
    from inv l that have "q < l" by (simp add: storeInv_def parentsBelow_def)
    with l show ?thesis by simp
  qed
  with inv show ?thesis unfolding s' by (rule storeInv_newList)
qed

lemma newChild_storeInv:
  assumes inv: "storeInv s" and n: "newChild X l s = Some (child, s')"
  shows "storeInv s'"
proof -
  from n have l: "l < length (listObjs s)" by (simp add: newChild_def split: if_splits)
  with n have s': "s' = s\<lparr>listObjs := listObjs s @
           [\<lparr>channel = channel (listObjs s ! l), parent = Some l,
             peersByHostPort = Map.empty, peers = [], peerSelector = newPeerSelector X\<rparr>]\<rparr>"
    by (simp add: newChild_def newPeerList_def setParent_def)
  have "q < length (listObjs s)" if "Some l = Some q" for q
    using that l by simp
  with inv show ?thesis unfolding s' by (rule storeInv_newList)
qed

lemma step_storeInv:
  assumes inv: "storeInv s" and st: "step X c s = Some s'"
  shows "storeInv s'"
proof (cases c)
  case (CallNewPeerList ch)
  with inv st show ?thesis by (auto simp: newPeerList_storeInv)
next
  case (CallNewSibling l)
  with inv st show ?thesis by (auto dest: newSibling_storeInv)
next
  case (CallNewChild l)
  with inv st show ?thesis by (auto dest: newChild_storeInv)
next
  case (CallAdd l hp)
  with st obtain y where y: "PeerList_Add l hp s = Some y" and s': "s' = fst (snd y)"
    by (auto simp: after_def)
  from Add_indexes [OF y] have "l < length (listObjs s)" by simp
  from Add_spec [OF inv this, of hp] y s' show ?thesis by auto
next
  case (CallGet l)
  with st have "\<exists>r evs. PeerList_Get X l s = Some (r, s', evs)" by (auto simp: after_def)
  with inv show ?thesis by (auto dest: sameIndex_Get storeInv_sameIndex)
next
  case (CallGetOrAdd l hp)
  with st obtain y where y: "PeerList_GetOrAdd l hp s = Some y" and s': "s' = fst (snd y)"
    by (auto simp: after_def)
  from y have l: "l < length (listObjs s)" by (simp add: PeerList_GetOrAdd_def split: if_splits)
  show ?thesis
  proof (cases "hp \<in> dom (peersByHostPort (listObjs s ! l))")
    case True
    with y s' l inv show ?thesis by (auto simp: PeerList_GetOrAdd_def)
  next
    case False
    from Add_spec [OF inv l, of hp] obtain p s1 evs where
      "PeerList_Add l hp s = Some (p, s1, evs)" and "storeInv s1" by blast
    with y s' l False show ?thesis by (auto simp: PeerList_GetOrAdd_def)
  qed
next
  case (CallCopy l)
  with inv st show ?thesis by (auto simp: after_def PeerList_Copy_def split: if_splits)
next
  case (CallClose l)
  with st have "\<exists>r evs. PeerList_Close X l s = Some (r, s', evs)" by (auto simp: after_def)
  with inv show ?thesis by (auto dest: sameIndex_Close storeInv_sameIndex)
next
  case (CallHostPort p)
  with inv st show ?thesis by (auto simp: after_def HostPort_def split: if_splits)
next
  case (CallGetConnection p ctx)
  with st have "\<exists>r evs. GetConnection p ctx s = Some (r, s', evs)" by (auto simp: after_def)
  with inv show ?thesis by (auto dest: sameIndex_GetConnection storeInv_sameIndex)
next
  case (CallAddInboundConnection p c)
  with st have "\<exists>r evs. AddInboundConnection p c s = Some (r, s', evs)" by (auto simp: after_def)
  with inv show ?thesis by (auto dest: sameIndex_AddInbound storeInv_sameIndex)
next
  case (CallAddOutboundConnection p c)
  with st have "\<exists>r evs. AddOutboundConnection p c s = Some (r, s', evs)" by (auto simp: after_def)
  with inv show ?thesis by (auto dest: sameIndex_AddOutbound storeInv_sameIndex)
next
  case (CallConnect p ctx)
  with st have "\<exists>r evs. Peer_Connect p ctx s = Some (r, s', evs)" by (auto simp: after_def)
  with inv show ?thesis by (auto dest: sameIndex_Connect storeInv_sameIndex)
next
  case (CallBeginCall p ctx sn opn co)
  with st have "\<exists>r evs. BeginCall X p ctx sn opn co s = Some (r, s', evs)" by (auto simp: after_def)
  with inv show ?thesis by (auto dest: sameIndex_BeginCall storeInv_sameIndex)
next
  case (CallPeerClose p)
  with st have "\<exists>r evs. Peer_Close X p s = Some (r, s', evs)" by (auto simp: after_def)
  with inv show ?thesis by (auto dest: sameIndex_Peer_Close storeInv_sameIndex)
next
  case (EnvConnections cs)
  with st have "s' = s\<lparr>connStates := cs\<rparr>" by auto
  with inv show ?thesis by (auto intro: storeInv_sameIndex)
qed

lemma run_storeInv: "storeInv s \<Longrightarrow> run X calls s = Some s' \<Longrightarrow> storeInv s'"
proof (induction calls arbitrary: s)
  case Nil
  then show ?case by simp
next
  case (Cons c calls)
  from Cons.prems(2) obtain s1 where 1: "step X c s = Some s1" and 2: "run X calls s1 = Some s'"
    by (cases "step X c s") auto
  from step_storeInv [OF Cons.prems(1) 1] 2 show ?case by (rule Cons.IH)
qed

lemma storeInv_no_lists: "listObjs s = [] \<Longrightarrow> storeInv s"
  by (simp add: storeInv_def parentsBelow_def keyedByHostPort_def sequenceIsIndex_def
      subsetOfParent_def)


lemma run_parentsBelow: "listObjs w0 = [] \<Longrightarrow> run X calls w0 = Some s \<Longrightarrow> parentsBelow s"
  using run_storeInv [OF storeInv_no_lists] by (simp add: storeInv_def)

lemma extends_newList:
  "extends s (s\<lparr>listObjs := (listObjs s @ [L])[length (listObjs s) := L']\<rparr>)"
  by (simp add: extends_def nth_append)

lemma step_extends:
  assumes inv: "storeInv s" and st: "step X c s = Some s'"
  shows "extends s s'"
proof (cases c)
  case (CallNewPeerList ch)
  with st show ?thesis by (auto simp: newPeerList_def extends_def nth_append)
next
  case (CallNewSibling l)
  with st show ?thesis
    by (auto simp: newSibling_def newPeerList_def setParent_def extends_def nth_append
        split: if_splits)
next
  case (CallNewChild l)
  with st show ?thesis
    by (auto simp: newChild_def newPeerList_def setParent_def extends_def nth_append
        split: if_splits)
next
  case (CallAdd l hp)
  with st obtain y where y: "PeerList_Add l hp s = Some y" and s': "s' = fst (snd y)"
    by (auto simp: after_def)
  from Add_indexes [OF y] have "l < length (listObjs s)" by simp
  from Add_spec [OF inv this, of hp] y s' show ?thesis by (auto intro: extends_map_parent)
next
  case (CallGet l)
  with st have "\<exists>r evs. PeerList_Get X l s = Some (r, s', evs)" by (auto simp: after_def)
  then show ?thesis by (auto dest: sameIndex_Get sameIndex_extends)
next
  case (CallGetOrAdd l hp)
  with st obtain y where y: "PeerList_GetOrAdd l hp s = Some y" and s': "s' = fst (snd y)"
    by (auto simp: after_def)
  from y have l: "l < length (listObjs s)" by (simp add: PeerList_GetOrAdd_def split: if_splits)
  show ?thesis
  proof (cases "hp \<in> dom (peersByHostPort (listObjs s ! l))")
    case True
    with y s' l show ?thesis by (auto simp: PeerList_GetOrAdd_def)
  next
    case False
    from Add_spec [OF inv l, of hp] obtain p s1 evs where
      "PeerList_Add l hp s = Some (p, s1, evs)"
      and "map parent (listObjs s1) = map parent (listObjs s)" by blast
    with y s' l False show ?thesis by (auto simp: PeerList_GetOrAdd_def intro: extends_map_parent)
  qed
next
  case (CallCopy l)
  with st show ?thesis by (auto simp: after_def PeerList_Copy_def split: if_splits)
next
  case (CallClose l)
  with st have "\<exists>r evs. PeerList_Close X l s = Some (r, s', evs)" by (auto simp: after_def)
  then show ?thesis by (auto dest: sameIndex_Close sameIndex_extends)
next
  case (CallHostPort p)
  with st show ?thesis by (auto simp: after_def HostPort_def split: if_splits)
next
  case (CallGetConnection p ctx)
  with st have "\<exists>r evs. GetConnection p ctx s = Some (r, s', evs)" by (auto simp: after_def)
  then show ?thesis by (auto dest: sameIndex_GetConnection sameIndex_extends)
next
  case (CallAddInboundConnection p c)
  with st have "\<exists>r evs. AddInboundConnection p c s = Some (r, s', evs)" by (auto simp: after_def)
  then show ?thesis by (auto dest: sameIndex_AddInbound sameIndex_extends)
next
  case (CallAddOutboundConnection p c)
  with st have "\<exists>r evs. AddOutboundConnection p c s = Some (r, s', evs)" by (auto simp: after_def)
  then show ?thesis by (auto dest: sameIndex_AddOutbound sameIndex_extends)
next
  case (CallConnect p ctx)
  with st have "\<exists>r evs. Peer_Connect p ctx s = Some (r, s', evs)" by (auto simp: after_def)
  then show ?thesis by (auto dest: sameIndex_Connect sameIndex_extends)
next
  case (CallBeginCall p ctx sn opn co)
  with st have "\<exists>r evs. BeginCall X p ctx sn opn co s = Some (r, s', evs)" by (auto simp: after_def)
  then show ?thesis by (auto dest: sameIndex_BeginCall sameIndex_extends)
next
  case (CallPeerClose p)
  with st have "\<exists>r evs. Peer_Close X p s = Some (r, s', evs)" by (auto simp: after_def)
  then show ?thesis by (auto dest: sameIndex_Peer_Close sameIndex_extends)
next
  case (EnvConnections cs)
  with st have "s' = s\<lparr>connStates := cs\<rparr>" by auto
  then show ?thesis by (auto intro: sameIndex_extends)
qed

lemma run_extends: "storeInv s \<Longrightarrow> run X calls s = Some s' \<Longrightarrow> extends s s'"
proof (induction calls arbitrary: s)
  case Nil
  then show ?case by simp
next
  case (Cons c calls)
  from Cons.prems(2) obtain s1 where 1: "step X c s = Some s1" and 2: "run X calls s1 = Some s'"
    by (cases "step X c s") auto
  from step_extends [OF Cons.prems(1) 1] Cons.IH [OF step_storeInv [OF Cons.prems(1) 1] 2]
  show ?case by (rule extends_trans)
qed

lemma card_dom_keyed:
  assumes fin: "finite (ran m)" and inj: "\<And>a b p. m a = Some p \<Longrightarrow> m b = Some p \<Longrightarrow> a = b"
  shows "card (dom m) = card (ran m)"
proof -
  have img: "(\<lambda>a. the (m a)) ` dom m = ran m"
    by (auto simp: ran_def dom_def image_iff) force
  have "inj_on (\<lambda>a. the (m a)) (dom m)"
    by (rule inj_onI) (auto dest: inj)
  then have "card ((\<lambda>a. the (m a)) ` dom m) = card (dom m)" by (rule card_image)
  with img show ?thesis by simp
qed

text \<open>
  C10. In every store reached from one without lists by a sequence of calls that return,
  every list has in its sequence exactly the peers that are values of its map, each
  once; every peer of the map exists and is keyed by the host:port it was created with;
  so the sequence is as long as the map has keys.
\<close>

theorem index_and_sequence_agree:
  assumes "listObjs w0 = []" and "run X calls w0 = Some s" and "l < length (listObjs s)"
  shows "set (peers (listObjs s ! l)) = ran (peersByHostPort (listObjs s ! l))
       \<and> distinct (peers (listObjs s ! l))
       \<and> (\<forall>hp p. peersByHostPort (listObjs s ! l) hp = Some p \<longrightarrow>
             p < length (peerObjs s) \<and> hostPort (peerObjs s ! p) = hp)
       \<and> length (peers (listObjs s ! l)) = card (dom (peersByHostPort (listObjs s ! l)))"
proof -
  from assms(1,2) have inv: "storeInv s" by (rule run_storeInv [OF storeInv_no_lists])
  with assms(3) have set: "set (peers (listObjs s ! l)) = ran (peersByHostPort (listObjs s ! l))"
    and dist: "distinct (peers (listObjs s ! l))"
    and keyed: "\<forall>hp p. peersByHostPort (listObjs s ! l) hp = Some p \<longrightarrow>
             p < length (peerObjs s) \<and> hostPort (peerObjs s ! p) = hp"
    by (simp_all add: storeInv_def sequenceIsIndex_def keyedByHostPort_def)
  have "finite (ran (peersByHostPort (listObjs s ! l)))"
    using set by (metis List.finite_set)
  moreover have "a = b" if "peersByHostPort (listObjs s ! l) a = Some p"
    and "peersByHostPort (listObjs s ! l) b = Some p" for a b p
    using keyed that by blast
  ultimately have "card (dom (peersByHostPort (listObjs s ! l)))
      = card (ran (peersByHostPort (listObjs s ! l)))"
    by (rule card_dom_keyed)
  also have "\<dots> = length (peers (listObjs s ! l))"
    using set dist by (metis distinct_card)
  finally show ?thesis using set dist keyed by simp
qed

lemma exRun:
  "run exX [CallNewPeerList exChannel, CallNewChild 0, CallAdd 1 ''10.0.0.1:4040''] exWorld
     = Some exChildAdded"
  using exParentChild_made exChildAdd by (simp add: after_def)

theorem index_and_sequence_agree_witness:
  "listObjs exWorld = []
   \<and> run exX [CallNewPeerList exChannel, CallNewChild 0, CallAdd 1 ''10.0.0.1:4040''] exWorld
       = Some exChildAdded
   \<and> 1 < length (listObjs exChildAdded)
   \<and> peers (listObjs exChildAdded ! 1) = [0]
   \<and> set (peers (listObjs exChildAdded ! 1)) = ran (peersByHostPort (listObjs exChildAdded ! 1))
   \<and> length (peers (listObjs exChildAdded ! 1))
       = card (dom (peersByHostPort (listObjs exChildAdded ! 1)))"
proof -
  have 1: "listObjs exWorld = []" by (simp add: exWorld_def)
  have 3: "1 < length (listObjs exChildAdded)" by (simp add: exChildAdded_def)
  have 4: "peers (listObjs exChildAdded ! 1) = [0]" by (simp add: exChildAdded_def exRoot_def)
  from index_and_sequence_agree [OF 1 exRun 3] 1 exRun 3 4 show ?thesis by simp
qed

text \<open>
  C5. Let a store be reached from one without lists, let \<^verbatim>\<open>newChild\<close> on the list \<open>P\<close> make
  the list \<open>C\<close>, and let any sequence of calls follow. Then \<open>C\<close> still has the parent \<open>P\<close>,
  every address that \<open>C\<close> indexes is indexed by \<open>P\<close> with the same peer, and \<^verbatim>\<open>Add\<close> of any
  address on \<open>C\<close> returns a peer that \<open>C\<close> and \<open>P\<close> both index under that address afterwards.
\<close>

theorem child_subset_of_parent:
  assumes "listObjs w0 = []" and "run X before w0 = Some s0"
    and "newChild X P s0 = Some (C, s1)" and "run X later s1 = Some s"
  shows "C < length (listObjs s) \<and> P < C \<and> parent (listObjs s ! C) = Some P
       \<and> peersByHostPort (listObjs s ! C) \<subseteq>\<^sub>m peersByHostPort (listObjs s ! P)
       \<and> (\<exists>p s' evs. PeerList_Add C hp s = Some (p, s', evs)
             \<and> peersByHostPort (listObjs s' ! C) hp = Some p
             \<and> peersByHostPort (listObjs s' ! P) hp = Some p)"
proof -
  from assms(1,2) have inv0: "storeInv s0" by (rule run_storeInv [OF storeInv_no_lists])
  from assms(3) have P: "P < length (listObjs s0)" by (simp add: newChild_def split: if_splits)
  with assms(3) have C: "C = length (listObjs s0)"
    and len1: "length (listObjs s1) = Suc (length (listObjs s0))"
    and par1: "parent (listObjs s1 ! C) = Some P"
    by (auto simp: newChild_def newPeerList_def setParent_def)
  from inv0 assms(3) have inv1: "storeInv s1" by (rule newChild_storeInv)
  from inv1 assms(4) have inv: "storeInv s" by (rule run_storeInv)
  from inv1 assms(4) have "extends s1 s" by (rule run_extends)
  with C len1 par1 have Clen: "C < length (listObjs s)" and par: "parent (listObjs s ! C) = Some P"
    by (auto simp: extends_def)
  from P C have PC: "P < C" by simp
  from inv Clen par have sub: "peersByHostPort (listObjs s ! C) \<subseteq>\<^sub>m peersByHostPort (listObjs s ! P)"
    by (simp add: storeInv_def subsetOfParent_def)
  from Add_spec [OF inv Clen, of hp] obtain p s' evs where
    add: "PeerList_Add C hp s = Some (p, s', evs)" and inv': "storeInv s'"
    and idx: "peersByHostPort (listObjs s' ! C) hp = Some p"
    and len': "length (listObjs s') = length (listObjs s)"
    and par': "map parent (listObjs s') = map parent (listObjs s)"
    by blast
  from map_eq_nth [OF par' Clen] par have "parent (listObjs s' ! C) = Some P" by simp
  with inv' Clen len' have "peersByHostPort (listObjs s' ! C) \<subseteq>\<^sub>m peersByHostPort (listObjs s' ! P)"
    by (simp add: storeInv_def subsetOfParent_def)
  with idx have "peersByHostPort (listObjs s' ! P) hp = Some p"
    by (metis domI map_le_def)
  with add idx Clen PC par sub show ?thesis by blast
qed

theorem child_subset_of_parent_witness:
  "listObjs exWorld = []
   \<and> run exX [CallNewPeerList exChannel] exWorld = Some (exWorld\<lparr>listObjs := [exRoot]\<rparr>)
   \<and> newChild exX 0 (exWorld\<lparr>listObjs := [exRoot]\<rparr>) = Some (1, exParentChild)
   \<and> run exX [CallAdd 1 ''10.0.0.1:4040''] exParentChild = Some exChildAdded
   \<and> parent (listObjs exChildAdded ! 1) = Some 0
   \<and> peersByHostPort (listObjs exChildAdded ! 1) ''10.0.0.1:4040'' = Some 0
   \<and> peersByHostPort (listObjs exChildAdded ! 0) ''10.0.0.1:4040'' = Some 0
   \<and> peersByHostPort (listObjs exChildAdded ! 1) \<subseteq>\<^sub>m peersByHostPort (listObjs exChildAdded ! 0)"
proof -
  have 1: "listObjs exWorld = []" by (simp add: exWorld_def)
  have 2: "run exX [CallNewPeerList exChannel] exWorld = Some (exWorld\<lparr>listObjs := [exRoot]\<rparr>)"
    using exParentChild_made by simp
  have 3: "newChild exX 0 (exWorld\<lparr>listObjs := [exRoot]\<rparr>) = Some (1, exParentChild)"
    using exParentChild_made by simp
  have 4: "run exX [CallAdd 1 ''10.0.0.1:4040''] exParentChild = Some exChildAdded"
    using exChildAdd by (simp add: after_def)
  have 5: "peersByHostPort (listObjs exChildAdded ! 1) ''10.0.0.1:4040'' = Some 0
      \<and> peersByHostPort (listObjs exChildAdded ! 0) ''10.0.0.1:4040'' = Some 0"
    by (simp add: exChildAdded_def exRoot_def)
  from child_subset_of_parent [OF 1 2 3 4, of "''10.0.0.1:4040''"] 1 2 3 4 5
  show ?thesis by simp
qed

end
